(* ===== verification/Shovel_Prelude.thy ===== *)
theory Shovel_Prelude
  imports "HOL-Library.Word"
begin

text \<open>
  Shared vocabulary of the development: the machine integers of the code, the faults a C++
  operation can end in, sequencing of operations that can fault, raw memory copies, and the
  list facts the component theories use.

  A C++ operation that throws or has undefined behaviour is modelled by an operation that
  returns \<open>Inl\<close> of a \<open>fault\<close>; \<open>Inr\<close> carries the normal result and the new state.
  The machine modelled is little-endian LP64 (x86-64 Linux), the platform the build files target.
\<close>

type_synonym u8 = "8 word"
type_synonym u16 = "16 word"
type_synonym u32 = "32 word"
type_synonym u64 = "64 word"
type_synonym bytes = "u8 list"

named_theorems layout \<open>definitions that only lay bytes out, unfolded to compute with headers\<close>
named_theorems op_defs \<open>definitions of one-step operations, unfolded to case-split on their branches\<close>

subsection \<open>Faults and sequencing\<close>

text \<open>
  \<open>Out_Of_Range\<close> is the exception of \<open>vector::at\<close>; \<open>Bad_Memory\<close> is a copy that leaves the
  bounds of an object; \<open>Invalid_Range\<close> is an iterator range whose end lies before its start or
  outside the container; \<open>Null_String\<close> is a \<open>std::string\<close> built from a null pointer;
  \<open>Null_Pointer\<close> is a dereferenced null pointer; \<open>Terminated\<close> is a call of \<open>std::terminate\<close>. Two more reasons keep a call from returning in a
  program with one thread: \<open>Blocked\<close>, it waits on a condition variable until another thread changes
  the queue, and \<open>Self_Deadlock\<close>, it locks a \<open>std::mutex\<close> its own thread already holds.
\<close>

datatype fault =
  Out_Of_Range | Bad_Memory | Invalid_Range | Null_String | Null_Pointer | Terminated | Blocked
  | Self_Deadlock

type_synonym 'a result = "fault + 'a"

primrec rbind :: "'a result \<Rightarrow> ('a \<Rightarrow> 'b result) \<Rightarrow> 'b result" where
  "rbind (Inl e) f = Inl e"
| "rbind (Inr x) f = f x"

lemma rbind_assoc: "rbind (rbind m f) g = rbind m (\<lambda>x. rbind (f x) g)"
  by (cases m) simp_all

lemma rbind_Inr_right [simp]: "rbind m Inr = m"
  by (cases m) simp_all

lemma rbind_eq_Inr: "rbind m f = Inr y \<longleftrightarrow> (\<exists>x. m = Inr x \<and> f x = Inr y)"
  by (cases m) simp_all

lemma rbind_eq_Inl: "rbind m f = Inl e \<longleftrightarrow> m = Inl e \<or> (\<exists>x. m = Inr x \<and> f x = Inl e)"
  by (cases m) simp_all

lemma rbind_cong [fundef_cong]:
  "m = m' \<Longrightarrow> (\<And>x. m' = Inr x \<Longrightarrow> f x = f' x) \<Longrightarrow> rbind m f = rbind m' f'"
  by (cases m') simp_all

subsection \<open>Raw memory\<close>

text \<open>
  \<open>memcpy dst src n\<close>: the copy of the C library, on the bytes readable at the source pointer and
  the bytes writable at the destination pointer. It returns the new destination bytes.
\<close>

definition memcpy :: "bytes \<Rightarrow> bytes \<Rightarrow> nat \<Rightarrow> bytes result" where
  "memcpy dst src n =
     (if n \<le> length src \<and> n \<le> length dst then Inr (take n src @ drop n dst) else Inl Bad_Memory)"

lemma memcpy_ok [simp]:
  "n \<le> length src \<Longrightarrow> n \<le> length dst \<Longrightarrow> memcpy dst src n = Inr (take n src @ drop n dst)"
  by (simp add: memcpy_def)

lemma memcpy_bad [simp]:
  "length src < n \<or> length dst < n \<Longrightarrow> memcpy dst src n = Inl Bad_Memory"
  by (auto simp: memcpy_def)

text \<open>\<open>vector::at\<close> and \<open>vector::resize\<close> on value-initialised bytes.\<close>

definition vector_at :: "'a list \<Rightarrow> nat \<Rightarrow> 'a result" where
  "vector_at xs i = (if i < length xs then Inr (xs ! i) else Inl Out_Of_Range)"

definition vector_resize :: "bytes \<Rightarrow> nat \<Rightarrow> bytes" where
  "vector_resize xs n = take n xs @ replicate (n - length xs) 0"

lemma vector_at_ok [simp]: "i < length xs \<Longrightarrow> vector_at xs i = Inr (xs ! i)"
  by (simp add: vector_at_def)

lemma length_vector_resize [simp]: "length (vector_resize xs n) = n"
  by (simp add: vector_resize_def)

subsection \<open>Little-endian layout\<close>

definition le16_bytes :: "u16 \<Rightarrow> bytes" where
  "le16_bytes w = [word_of_nat (unat w mod 256), word_of_nat (unat w div 256)]"

definition le32_bytes :: "u32 \<Rightarrow> bytes" where
  "le32_bytes w =
     [word_of_nat (unat w mod 256), word_of_nat (unat w div 256 mod 256),
      word_of_nat (unat w div 65536 mod 256), word_of_nat (unat w div 16777216)]"

definition le16 :: "u8 \<Rightarrow> u8 \<Rightarrow> u16" where
  "le16 a b = word_of_nat (unat a + 256 * unat b)"

definition le32 :: "u8 \<Rightarrow> u8 \<Rightarrow> u8 \<Rightarrow> u8 \<Rightarrow> u32" where
  "le32 a b c d = word_of_nat (unat a + 256 * unat b + 65536 * unat c + 16777216 * unat d)"

lemma unat_u8_less [simp]: "unat (a :: u8) < 256"
  using unsigned_less [of a, where ?'a = nat] by simp

lemma unat_u16_less [simp]: "unat (a :: u16) < 65536"
  using unsigned_less [of a, where ?'a = nat] by simp

lemma unat_u32_less [simp]: "unat (a :: u32) < 4294967296"
  using unsigned_less [of a, where ?'a = nat] by simp

lemma unat_le16: "unat (le16 a b) = unat a + 256 * unat b"
proof -
  have "unat a + 256 * unat b < 65536"
    using unat_u8_less [of a] unat_u8_less [of b] by linarith
  then show ?thesis
    by (simp add: le16_def unat_of_nat del: of_nat_add of_nat_mult)
qed

lemma unat_le32: "unat (le32 a b c d) = unat a + 256 * unat b + 65536 * unat c + 16777216 * unat d"
proof -
  have "unat a + 256 * unat b + 65536 * unat c + 16777216 * unat d < 4294967296"
    using unat_u8_less [of a] unat_u8_less [of b] unat_u8_less [of c] unat_u8_less [of d]
    by linarith
  then show ?thesis
    by (simp add: le32_def unat_of_nat del: of_nat_add of_nat_mult)
qed

lemma base256_cons:
  fixes a b k l :: nat
  assumes "a + 256 * k = b + 256 * l" and "a < 256" and "b < 256"
  shows "a = b \<and> k = l"
proof -
  have "(a + 256 * k) mod 256 = (b + 256 * l) mod 256" using assms(1) by simp
  then have "a = b" using assms(2,3) by simp
  then show ?thesis using assms(1) by simp
qed

lemma le32_inj:
  assumes "le32 a b c d = le32 a' b' c' d'"
  shows "a = a' \<and> b = b' \<and> c = c' \<and> d = d'"
proof -
  let ?n = "\<lambda>a b c d :: u8. unat a + 256 * (unat b + 256 * (unat c + 256 * unat d))"
  have "unat a + 256 * unat b + 65536 * unat c + 16777216 * unat d = ?n a b c d" for a b c d :: u8
    by simp
  then have "?n a b c d = ?n a' b' c' d'" using assms unat_le32 by metis
  from base256_cons [OF this unat_u8_less unat_u8_less]
  have "unat a = unat a'" and bcd: "unat b + 256 * (unat c + 256 * unat d)
      = unat b' + 256 * (unat c' + 256 * unat d')" by auto
  moreover from base256_cons [OF bcd unat_u8_less unat_u8_less]
  have "unat b = unat b'" and cd: "unat c + 256 * unat d = unat c' + 256 * unat d'" by auto
  moreover from base256_cons [OF cd unat_u8_less unat_u8_less]
  have "unat c = unat c'" "unat d = unat d'" by auto
  ultimately show ?thesis by (simp add: word_unat_eq_iff)
qed

lemma length_le_bytes [simp]: "length (le16_bytes w) = 2" "length (le32_bytes v) = 4"
  by (simp_all add: le16_bytes_def le32_bytes_def)

lemma le16_of_bytes: "le16 (le16_bytes w ! 0) (le16_bytes w ! 1) = w"
proof -
  have "unat w div 256 < 256" using unat_u16_less [of w] by linarith
  then have "unat (le16 (le16_bytes w ! 0) (le16_bytes w ! 1)) = unat w"
    by (simp add: unat_le16 le16_bytes_def unat_of_nat)
  then show ?thesis by (simp only: word_unat_eq_iff)
qed

lemma base256_digits:
  "(n :: nat) = n mod 256 + 256 * (n div 256 mod 256) + 65536 * (n div 65536 mod 256)
     + 16777216 * (n div 16777216)"
proof -
  have "n = n mod 256 + 256 * (n div 256)" by simp
  moreover have "n div 256 = n div 256 mod 256 + 256 * (n div 65536)"
    using mod_mult_div_eq [of "n div 256" 256] by (simp add: div_mult2_eq [symmetric])
  moreover have "n div 65536 = n div 65536 mod 256 + 256 * (n div 16777216)"
    using mod_mult_div_eq [of "n div 65536" 256] by (simp add: div_mult2_eq [symmetric])
  ultimately show ?thesis by linarith
qed

lemma le32_of_bytes:
  "le32 (le32_bytes w ! 0) (le32_bytes w ! 1) (le32_bytes w ! 2) (le32_bytes w ! 3) = w"
proof -
  let ?b = "\<lambda>i. le32_bytes w ! i"
  have "unat w div 16777216 < 256" using unat_u32_less [of w] by linarith
  then have d: "unat (?b 0) = unat w mod 256" "unat (?b 1) = unat w div 256 mod 256"
      "unat (?b 2) = unat w div 65536 mod 256" "unat (?b 3) = unat w div 16777216"
    by (simp_all add: le32_bytes_def unat_of_nat)
  have "unat (le32 (?b 0) (?b 1) (?b 2) (?b 3)) = unat w"
    unfolding unat_le32 d by (rule base256_digits [symmetric])
  then show ?thesis by (simp only: word_unat_eq_iff)
qed

subsection \<open>Conversions between widths, wrap-around indices\<close>

lemma unat_ucast_u16_u32 [simp]: "unat (ucast (n :: u16) :: u32) = unat n"
proof -
  have "unat n < 2 ^ 32" by (rule less_trans [OF unat_u16_less]) simp
  then show ?thesis by (simp add: unsigned_ucast_eq take_bit_nat_eq_self)
qed

lemma unat_ucast_u32_u16: "unat (w :: u32) < 65536 \<Longrightarrow> unat (ucast w :: u16) = unat w"
  by (simp add: unsigned_ucast_eq take_bit_nat_eq_self)

lemma ucast_u16_u32_u16 [simp]: "ucast (ucast (n :: u16) :: u32) = n"
  by (simp only: word_unat_eq_iff unat_ucast_u16_u32 unat_ucast_u32_u16 [of "ucast n :: u32"]
      unat_u16_less)

lemma ucast_u32_u16_eq:
  "unat (w :: u32) = m \<Longrightarrow> m < 65536 \<Longrightarrow> (ucast w :: u16) = word_of_nat m"
  by (simp add: word_unat_eq_iff unat_ucast_u32_u16 unat_of_nat)

lemma unat_min [simp]: "unat (min (a :: 'a::len word) b) = min (unat a) (unat b)"
  by (simp add: min_def word_le_nat_alt)

lemma unat_Suc_u32: "unat (w :: u32) + 1 < 4294967296 \<Longrightarrow> unat (w + 1) = Suc (unat w)"
  by (simp add: unat_word_ariths)

lemma unat_pred_u32: "(w :: u32) \<noteq> 0 \<Longrightarrow> unat (w - 1) = unat w - 1"
  by (simp add: unat_minus_one)

lemma mod_add_inj:
  fixes a c i j :: nat
  assumes "i < c" and "j < c" and "(a + i) mod c = (a + j) mod c"
  shows "i = j"
proof -
  have *: "i = j" if "i \<le> j" "i < c" "j < c" "(a + i) mod c = (a + j) mod c" for i j
  proof -
    have "c dvd (a + j) - (a + i)"
      by (rule mod_eq_dvd_iff_nat [THEN iffD1]) (use that in simp_all)
    then have "c dvd j - i" by simp
    moreover have "j - i < c" using that by simp
    ultimately show "i = j" using that(1) nat_dvd_not_less [of "j - i" c] by auto
  qed
  show ?thesis
    using *[of i j] *[of j i] assms by (cases "i \<le> j") auto
qed

end
