(* ===== verification/Queue_Base.thy ===== *)
theory Queue_Base
  imports Shovel_Prelude
begin

text \<open>
  \<open>containers/QueueBase.h\<close> and \<open>containers/QueueBase.cpp\<close>: the fields every queue inherits, the
  status codes, and the three concrete accessors. The pure virtual \<open>put\<close>, \<open>get\<close> and \<open>peek\<close> are
  the locale of theory \<open>Fifo_Spec\<close>.
\<close>

datatype QUEUEBASE_STATUS =
  STATUS_QUEUEBASE_OK | STATUS_QUEUEBASE_FULL | STATUS_QUEUEBASE_EMPTY

record queue_base =
  qb_m_total_count :: u32
  qb_m_size :: u32
  qb_m_status :: QUEUEBASE_STATUS

definition QueueBase_ctor :: queue_base where
  "QueueBase_ctor =
     \<lparr>qb_m_total_count = 0, qb_m_size = 0, qb_m_status = STATUS_QUEUEBASE_OK\<rparr>"

definition QueueBase_get_status :: "'z queue_base_scheme \<Rightarrow> QUEUEBASE_STATUS" where
  "QueueBase_get_status q = qb_m_status q"

definition QueueBase_size :: "'z queue_base_scheme \<Rightarrow> u32" where
  "QueueBase_size q = qb_m_size q"

definition QueueBase_capacity :: "'z queue_base_scheme \<Rightarrow> u32" where
  "QueueBase_capacity q = qb_m_total_count q"

declare QueueBase_get_status_def [op_defs] QueueBase_size_def [op_defs]
  QueueBase_capacity_def [op_defs]

end
