(* ===== verification/Fifo_Spec.thy ===== *)
theory Fifo_Spec
  imports Queue_Base
begin

text \<open>
  The contract of the virtual operations of \<open>QueueBase\<close>: a bounded queue of byte strings. The
  abstract state is the list of stored byte strings, oldest first; each abstract operation returns
  what the caller sees (return value, output buffer, status) and the new list.

  The locale \<open>bounded_fifo\<close> is the interface: a client that only calls \<open>put\<close>, \<open>get\<close>, \<open>peek\<close>,
  \<open>size\<close> and \<open>get_status\<close> can use the lemmas proved in it. It is interpreted on the ring buffer
  (\<open>Ring_Queue\<close>) and on the decorated queue (\<open>Queue_Decorators\<close>).
\<close>

subsection \<open>Abstract operations\<close>

definition fifo_put ::
  "nat \<Rightarrow> bytes list \<Rightarrow> bytes \<Rightarrow> u16 \<Rightarrow> u16 \<times> QUEUEBASE_STATUS \<times> bytes list" where
  "fifo_put cap xs buf n =
     (if length xs < cap then (n, STATUS_QUEUEBASE_OK, xs @ [take (unat n) buf])
      else (0, STATUS_QUEUEBASE_FULL, xs))"

definition fifo_peek :: "bytes list \<Rightarrow> bytes \<Rightarrow> u16 \<Rightarrow> u16 \<times> bytes \<times> QUEUEBASE_STATUS" where
  "fifo_peek xs out n =
     (case xs of
        [] \<Rightarrow> (0, out, STATUS_QUEUEBASE_EMPTY)
      | d # _ \<Rightarrow> let m = min (unat n) (length d)
                 in (word_of_nat m, take m d @ drop m out, STATUS_QUEUEBASE_OK))"

definition fifo_get ::
  "bytes list \<Rightarrow> bytes \<Rightarrow> u16 \<Rightarrow> u16 \<times> bytes \<times> QUEUEBASE_STATUS \<times> bytes list" where
  "fifo_get xs out n =
     (case fifo_peek xs out n of (r, out', st) \<Rightarrow> (r, out', st, tl xs))"

lemma fifo_get_simps [simp]:
  "fifo_get [] out n = (0, out, STATUS_QUEUEBASE_EMPTY, [])"
  "fifo_get (d # ds) out n =
     (word_of_nat (min (unat n) (length d)),
      take (min (unat n) (length d)) d @ drop (min (unat n) (length d)) out,
      STATUS_QUEUEBASE_OK, ds)"
  by (simp_all add: fifo_get_def fifo_peek_def Let_def)

subsection \<open>Runs of client operations\<close>

text \<open>
  A client is a list of operations; \<open>fifo_run\<close> runs them on an implementation and collects what
  the client observes, \<open>spec_run\<close> does the same on the abstract list. An operation is well formed
  when the client's own buffer is as large as the size it passes.
\<close>

datatype fifo_op = Put bytes u16 | Get bytes u16 | Peek bytes u16

record fifo_obs =
  obs_ret :: u16
  obs_buf :: bytes
  obs_status :: QUEUEBASE_STATUS

fun fifo_op_ok :: "fifo_op \<Rightarrow> bool" where
  "fifo_op_ok (Put buf n) = (unat n \<le> length buf)"
| "fifo_op_ok (Get out n) = (unat n \<le> length out)"
| "fifo_op_ok (Peek out n) = (unat n \<le> length out)"

fun spec_step :: "nat \<Rightarrow> bytes list \<Rightarrow> fifo_op \<Rightarrow> fifo_obs \<times> bytes list" where
  "spec_step cap xs (Put buf n) =
     (case fifo_put cap xs buf n of (r, st, xs') \<Rightarrow> (\<lparr>obs_ret = r, obs_buf = buf, obs_status = st\<rparr>, xs'))"
| "spec_step cap xs (Get out n) =
     (case fifo_get xs out n of (r, o', st, xs') \<Rightarrow> (\<lparr>obs_ret = r, obs_buf = o', obs_status = st\<rparr>, xs'))"
| "spec_step cap xs (Peek out n) =
     (case fifo_peek xs out n of (r, o', st) \<Rightarrow> (\<lparr>obs_ret = r, obs_buf = o', obs_status = st\<rparr>, xs))"

fun spec_run :: "nat \<Rightarrow> bytes list \<Rightarrow> fifo_op list \<Rightarrow> fifo_obs list \<times> bytes list" where
  "spec_run cap xs [] = ([], xs)"
| "spec_run cap xs (p # ps) =
     (case spec_step cap xs p of (b, xs') \<Rightarrow>
      case spec_run cap xs' ps of (bs, xs'') \<Rightarrow> (b # bs, xs''))"

text \<open>The operations of an implementation, as one record of functions.\<close>

record 'q fifo_impl =
  im_put :: "'q \<Rightarrow> bytes \<Rightarrow> u16 \<Rightarrow> (u16 \<times> 'q) result"
  im_get :: "'q \<Rightarrow> bytes \<Rightarrow> u16 \<Rightarrow> (u16 \<times> bytes \<times> 'q) result"
  im_peek :: "'q \<Rightarrow> bytes \<Rightarrow> u16 \<Rightarrow> (u16 \<times> bytes \<times> 'q) result"
  im_status :: "'q \<Rightarrow> QUEUEBASE_STATUS"
  im_size :: "'q \<Rightarrow> u32"

fun fifo_step :: "'q fifo_impl \<Rightarrow> 'q \<Rightarrow> fifo_op \<Rightarrow> (fifo_obs \<times> 'q) result" where
  "fifo_step im q (Put buf n) =
     rbind (im_put im q buf n) (\<lambda>(r, q').
       Inr (\<lparr>obs_ret = r, obs_buf = buf, obs_status = im_status im q'\<rparr>, q'))"
| "fifo_step im q (Get out n) =
     rbind (im_get im q out n) (\<lambda>(r, o', q').
       Inr (\<lparr>obs_ret = r, obs_buf = o', obs_status = im_status im q'\<rparr>, q'))"
| "fifo_step im q (Peek out n) =
     rbind (im_peek im q out n) (\<lambda>(r, o', q').
       Inr (\<lparr>obs_ret = r, obs_buf = o', obs_status = im_status im q'\<rparr>, q'))"

fun fifo_run :: "'q fifo_impl \<Rightarrow> 'q \<Rightarrow> fifo_op list \<Rightarrow> (fifo_obs list \<times> 'q) result" where
  "fifo_run im q [] = Inr ([], q)"
| "fifo_run im q (p # ps) =
     rbind (fifo_step im q p) (\<lambda>(b, q').
     rbind (fifo_run im q' ps) (\<lambda>(bs, q''). Inr (b # bs, q'')))"

subsection \<open>Facts of the abstract queue\<close>

definition item_bound :: "bytes list \<Rightarrow> bool" where
  "item_bound xs \<longleftrightarrow> (\<forall>d \<in> set xs. length d < 65536)"

lemma item_bound_simps [simp]:
  "item_bound []" "item_bound (d # ds) \<longleftrightarrow> length d < 65536 \<and> item_bound ds"
  "item_bound (xs @ ys) \<longleftrightarrow> item_bound xs \<and> item_bound ys"
  by (auto simp: item_bound_def)

lemma spec_step_bounds:
  assumes "length xs \<le> cap" and "spec_step cap xs p = (b, xs')"
  shows "length xs' \<le> cap"
  using assms
  by (cases p; cases xs) (auto simp: fifo_put_def split: if_splits prod.splits)

lemma spec_step_items:
  assumes "item_bound xs" and "fifo_op_ok p" and "spec_step cap xs p = (b, xs')"
  shows "item_bound xs'"
  using assms
  by (cases p; cases xs) (auto simp: fifo_put_def split: if_splits prod.splits)

text \<open>
  Conservation: what the abstract queue accepted, in order, is what it delivered, in order,
  followed by what it still holds. \<open>accepted\<close> and \<open>taken\<close> read a run's observations.
\<close>

fun accepted :: "nat \<Rightarrow> bytes list \<Rightarrow> fifo_op list \<Rightarrow> bytes list" where
  "accepted cap xs [] = []"
| "accepted cap xs (p # ps) =
     (case p of Put buf n \<Rightarrow> if length xs < cap then [take (unat n) buf] else [] | _ \<Rightarrow> [])
     @ accepted cap (snd (spec_step cap xs p)) ps"

fun taken :: "nat \<Rightarrow> bytes list \<Rightarrow> fifo_op list \<Rightarrow> bytes list" where
  "taken cap xs [] = []"
| "taken cap xs (p # ps) =
     (case p of Get out n \<Rightarrow> (case xs of [] \<Rightarrow> [] | d # _ \<Rightarrow> [d]) | _ \<Rightarrow> [])
     @ taken cap (snd (spec_step cap xs p)) ps"

lemma spec_run_conservation:
  "xs @ accepted cap xs ps = taken cap xs ps @ snd (spec_run cap xs ps)"
proof (induction ps arbitrary: xs)
  case Nil
  then show ?case by simp
next
  case (Cons p ps)
  show ?case
    using Cons.IH [of "snd (spec_step cap xs p)"]
    by (cases p; cases xs)
      (auto simp: fifo_put_def split: prod.splits if_splits)
qed

subsection \<open>The interface\<close>

locale bounded_fifo =
  fixes im :: "'q fifo_impl"
    and inv :: "'q \<Rightarrow> bool"
    and cont :: "'q \<Rightarrow> bytes list"
    and cap :: "'q \<Rightarrow> nat"
  assumes put_law: "inv q \<Longrightarrow> unat n \<le> length buf \<Longrightarrow>
      \<exists>r q'. im_put im q buf n = Inr (r, q') \<and> inv q' \<and> cap q' = cap q
        \<and> (r, im_status im q', cont q') = fifo_put (cap q) (cont q) buf n"
    and get_law: "inv q \<Longrightarrow> unat n \<le> length out \<Longrightarrow>
      \<exists>r out' q'. im_get im q out n = Inr (r, out', q') \<and> inv q' \<and> cap q' = cap q
        \<and> (r, out', im_status im q', cont q') = fifo_get (cont q) out n"
    and peek_law: "inv q \<Longrightarrow> unat n \<le> length out \<Longrightarrow>
      \<exists>r out' q'. im_peek im q out n = Inr (r, out', q') \<and> inv q' \<and> cap q' = cap q
        \<and> cont q' = cont q \<and> (r, out', im_status im q') = fifo_peek (cont q) out n"
    and size_law: "inv q \<Longrightarrow> unat (im_size im q) = length (cont q)"
    and bound_law: "inv q \<Longrightarrow> length (cont q) \<le> cap q"
    and item_law: "inv q \<Longrightarrow> item_bound (cont q)"
begin

lemma step_simulates:
  assumes "inv q" and "fifo_op_ok p"
  shows "\<exists>b q'. fifo_step im q p = Inr (b, q') \<and> inv q' \<and> cap q' = cap q
    \<and> spec_step (cap q) (cont q) p = (b, cont q')"
proof (cases p)
  case (Put buf n)
  with assms put_law [of q n buf] obtain r q' where
    "im_put im q buf n = Inr (r, q')" "inv q'" "cap q' = cap q"
    "fifo_put (cap q) (cont q) buf n = (r, im_status im q', cont q')"
    by (metis fifo_op_ok.simps(1))
  with Put show ?thesis by simp
next
  case (Get out n)
  with assms get_law [of q n out] obtain r o' q' where
    "im_get im q out n = Inr (r, o', q')" "inv q'" "cap q' = cap q"
    "fifo_get (cont q) out n = (r, o', im_status im q', cont q')"
    by (metis fifo_op_ok.simps(2))
  with Get show ?thesis by simp
next
  case (Peek out n)
  with assms peek_law [of q n out] obtain r o' q' where
    "im_peek im q out n = Inr (r, o', q')" "inv q'" "cap q' = cap q" "cont q' = cont q"
    "fifo_peek (cont q) out n = (r, o', im_status im q')"
    by (metis fifo_op_ok.simps(3))
  with Peek show ?thesis by simp
qed

lemma run_simulates:
  assumes "inv q" and "list_all fifo_op_ok ps"
  shows "\<exists>bs q'. fifo_run im q ps = Inr (bs, q') \<and> inv q' \<and> cap q' = cap q
    \<and> spec_run (cap q) (cont q) ps = (bs, cont q')"
  using assms
proof (induction ps arbitrary: q)
  case Nil
  then show ?case by simp
next
  case (Cons p ps)
  then obtain b q1 where 1: "fifo_step im q p = Inr (b, q1)" "inv q1" "cap q1 = cap q"
      "spec_step (cap q) (cont q) p = (b, cont q1)"
    using step_simulates [of q p] by auto
  from Cons.IH [OF 1(2)] Cons.prems 1(3) obtain bs q2 where
      "fifo_run im q1 ps = Inr (bs, q2)" "inv q2" "cap q2 = cap q"
      "spec_run (cap q) (cont q1) ps = (bs, cont q2)"
    by auto
  with 1 show ?case by auto
qed

lemma run_conserves:
  assumes "inv q" and "list_all fifo_op_ok ps"
  shows "\<exists>bs q'. fifo_run im q ps = Inr (bs, q')
    \<and> cont q @ accepted (cap q) (cont q) ps = taken (cap q) (cont q) ps @ cont q'"
  using run_simulates [OF assms] spec_run_conservation [of "cont q" "cap q" ps] by force

lemma put_get_roundtrip:
  assumes "inv q" and "cont q = []" and "0 < cap q" and "unat n \<le> length buf"
    and "unat m \<le> length out" and "unat n \<le> unat m"
  shows "\<exists>q1 q2. im_put im q buf n = Inr (n, q1)
    \<and> im_get im q1 out m = Inr (n, take (unat n) buf @ drop (unat n) out, q2) \<and> cont q2 = []"
proof -
  from put_law [OF assms(1,4)] assms(2,3) obtain q1 where
    q1: "im_put im q buf n = Inr (n, q1)" "inv q1" "cont q1 = [take (unat n) buf]"
    by (auto simp: fifo_put_def)
  have m: "min (unat m) (length (take (unat n) buf)) = unat n"
    using assms(4,6) by simp
  from get_law [OF q1(2) assms(5)] q1(3) obtain r o' q2 where
    "im_get im q1 out m = Inr (r, o', q2)"
    "(r, o', im_status im q2, cont q2) = fifo_get [take (unat n) buf] out m"
    by auto
  then have "im_get im q1 out m = Inr (n, take (unat n) buf @ drop (unat n) out, q2)" "cont q2 = []"
    unfolding fifo_get_simps m by simp_all
  with q1(1) show ?thesis by blast
qed

lemma size_after_put:
  assumes "inv q" and "unat n \<le> length buf" and "im_put im q buf n = Inr (r, q')"
  shows "unat (im_size im q') =
    (if length (cont q) < cap q then Suc (unat (im_size im q)) else unat (im_size im q))"
  using put_law [OF assms(1,2)] assms(1,3) size_law by (auto simp: fifo_put_def split: if_splits)

end

end
