(* ===== verification/Ring_Queue.thy ===== *)
theory Ring_Queue
  imports Fifo_Spec
begin

text \<open>
  \<open>containers/RingQueue.h\<close> and \<open>containers/RingQueue.cpp\<close>: the ring buffer of data bags.

  A \<open>bag\<close> is one cell; \<open>ring_queue\<close> extends the fields of \<open>QueueBase\<close>. The class declares its own
  \<open>m_total_count\<close> besides the inherited one: \<open>rq_m_total_count\<close> is the field of \<open>RingQueue\<close>,
  \<open>qb_m_total_count\<close> the shadowed one that the inherited \<open>capacity\<close> reads. The diagnostics written to
  the standard output are not modelled.

  The first half is the model of the code; the second half relates it to the abstract queue: the
  invariant \<open>rq_inv\<close>, the abstraction \<open>rq_cont\<close>, one refinement lemma per operation, and the
  interpretation of \<open>bounded_fifo\<close>.
\<close>

subsection \<open>Cells\<close>

record bag =
  bag_data :: bytes
  bag_init_cell_size :: u32
  bag_data_size :: u32
  bag_has_data :: bool

definition bag_ctor :: "u32 \<Rightarrow> bag" where
  "bag_ctor n =
     \<lparr>bag_data = vector_resize (replicate (unat n) 0) (unat n), bag_init_cell_size = n,
      bag_data_size = 0, bag_has_data = False\<rparr>"

definition bag_put :: "bag \<Rightarrow> bytes \<Rightarrow> u32 \<Rightarrow> (u32 \<times> bag) result" where
  "bag_put b in_data n =
     (let b = (if length (bag_data b) < unat n
               then b\<lparr>bag_data := vector_resize (bag_data b) (unat n)\<rparr> else b)
      in rbind (memcpy (bag_data b) in_data (unat n)) (\<lambda>d.
         Inr (n, b\<lparr>bag_data := d, bag_has_data := True, bag_data_size := n\<rparr>)))"

definition bag_get :: "bag \<Rightarrow> bytes \<Rightarrow> u32 \<Rightarrow> (u32 \<times> bytes \<times> bag) result" where
  "bag_get b out n =
     (if \<not> bag_has_data b then Inr (0, out, b)
      else let read_size = min n (bag_data_size b)
           in rbind (memcpy out (bag_data b) (unat read_size)) (\<lambda>out'.
              Inr (read_size, out', b\<lparr>bag_has_data := False, bag_data_size := 0\<rparr>)))"

definition bag_peek :: "bag \<Rightarrow> bytes \<Rightarrow> u32 \<Rightarrow> (u32 \<times> bytes) result" where
  "bag_peek b buf n =
     (if \<not> bag_has_data b then Inr (0, buf)
      else let read_size = min n (bag_data_size b)
           in rbind (memcpy buf (bag_data b) (unat read_size)) (\<lambda>buf'. Inr (read_size, buf')))"

subsection \<open>The ring\<close>

record ring_queue = queue_base +
  rq_m_index_in :: u32
  rq_m_index_out :: u32
  rq_m_ring_vector :: "bag list"
  rq_m_total_count :: u32

definition RingQueue_reset_status :: "ring_queue \<Rightarrow> ring_queue" where
  "RingQueue_reset_status q = q\<lparr>qb_m_status := STATUS_QUEUEBASE_OK\<rparr>"

definition RingQueue_ctor :: "u32 \<Rightarrow> u32 \<Rightarrow> ring_queue" where
  "RingQueue_ctor count cell_size =
     RingQueue_reset_status
       (queue_base.extend QueueBase_ctor
         (ring_queue.fields 0 0 (replicate (unat count) (bag_ctor cell_size)) count))"

definition RingQueue_default :: ring_queue where
  "RingQueue_default = RingQueue_ctor 20 65535"

definition RingQueue_put :: "ring_queue \<Rightarrow> bytes \<Rightarrow> u16 \<Rightarrow> (u16 \<times> ring_queue) result" where
  "RingQueue_put q0 buf n =
     (let q = RingQueue_reset_status q0
      in if qb_m_size q < rq_m_total_count q
         then rbind (vector_at (rq_m_ring_vector q) (unat (rq_m_index_in q))) (\<lambda>b.
              rbind (bag_put b buf (ucast n)) (\<lambda>(put_size, b').
                let q1 = q\<lparr>rq_m_ring_vector := (rq_m_ring_vector q)[unat (rq_m_index_in q) := b']\<rparr>;
                    q2 = q1\<lparr>rq_m_index_in := rq_m_index_in q1 + 1\<rparr>;
                    q3 = (if rq_m_index_in q2 = rq_m_total_count q2 then q2\<lparr>rq_m_index_in := 0\<rparr> else q2);
                    q4 = q3\<lparr>qb_m_size := qb_m_size q3 + 1\<rparr>
                in Inr (ucast put_size, q4)))
         else Inr (0, q\<lparr>qb_m_status := STATUS_QUEUEBASE_FULL\<rparr>))"

text \<open>
  \<open>get\<close> keeps the size read in a signed 32-bit variable before narrowing it to 16 bits; the low 16
  bits are those of the unsigned value, so \<open>ucast\<close> is the whole conversion.
\<close>

definition RingQueue_get ::
  "ring_queue \<Rightarrow> bytes \<Rightarrow> u16 \<Rightarrow> (u16 \<times> bytes \<times> ring_queue) result" where
  "RingQueue_get q0 out n =
     (let q = RingQueue_reset_status q0
      in if qb_m_size q \<noteq> 0
         then rbind (vector_at (rq_m_ring_vector q) (unat (rq_m_index_out q))) (\<lambda>b.
              rbind (bag_get b out (ucast n)) (\<lambda>(got_size, out', b').
                let q1 = q\<lparr>rq_m_ring_vector := (rq_m_ring_vector q)[unat (rq_m_index_out q) := b']\<rparr>;
                    q2 = q1\<lparr>rq_m_index_out := rq_m_index_out q1 + 1\<rparr>;
                    q3 = (if rq_m_index_out q2 = rq_m_total_count q2 then q2\<lparr>rq_m_index_out := 0\<rparr> else q2);
                    q4 = q3\<lparr>qb_m_size := qb_m_size q3 - 1\<rparr>
                in Inr (ucast got_size, out', q4)))
         else Inr (0, out, q\<lparr>qb_m_status := STATUS_QUEUEBASE_EMPTY\<rparr>))"

definition RingQueue_peek ::
  "ring_queue \<Rightarrow> bytes \<Rightarrow> u16 \<Rightarrow> (u16 \<times> bytes \<times> ring_queue) result" where
  "RingQueue_peek q0 out n =
     (let q = RingQueue_reset_status q0
      in if qb_m_size q \<noteq> 0
         then rbind (vector_at (rq_m_ring_vector q) (unat (rq_m_index_out q))) (\<lambda>b.
              rbind (bag_peek b out (ucast n)) (\<lambda>(got_size, out').
                Inr (ucast got_size, out', q)))
         else Inr (0, out, q\<lparr>qb_m_status := STATUS_QUEUEBASE_EMPTY\<rparr>))"

text \<open>The accessors are inherited from \<open>QueueBase\<close>; the class overrides none of them.\<close>

definition RingQueue_capacity :: "ring_queue \<Rightarrow> u32" where
  "RingQueue_capacity q = QueueBase_capacity q"

definition RingQueue_size :: "ring_queue \<Rightarrow> u32" where
  "RingQueue_size q = QueueBase_size q"

definition RingQueue_get_status :: "ring_queue \<Rightarrow> QUEUEBASE_STATUS" where
  "RingQueue_get_status q = QueueBase_get_status q"

declare RingQueue_size_def [op_defs] RingQueue_capacity_def [op_defs]
  RingQueue_get_status_def [op_defs] RingQueue_reset_status_def [op_defs]

subsection \<open>Invariant and abstraction\<close>

definition slot :: "ring_queue \<Rightarrow> nat \<Rightarrow> nat" where
  "slot q i = (unat (rq_m_index_out q) + i) mod unat (rq_m_total_count q)"

definition bag_item :: "bag \<Rightarrow> bytes" where
  "bag_item b = take (unat (bag_data_size b)) (bag_data b)"

definition bag_ok :: "bag \<Rightarrow> bool" where
  "bag_ok b \<longleftrightarrow> bag_has_data b \<and> unat (bag_data_size b) \<le> length (bag_data b)
     \<and> unat (bag_data_size b) < 65536"

definition rq_cap :: "ring_queue \<Rightarrow> nat" where
  "rq_cap q = unat (rq_m_total_count q)"

definition rq_cont :: "ring_queue \<Rightarrow> bytes list" where
  "rq_cont q = map (\<lambda>i. bag_item (rq_m_ring_vector q ! slot q i)) [0..<unat (qb_m_size q)]"

definition rq_inv :: "ring_queue \<Rightarrow> bool" where
  "rq_inv q \<longleftrightarrow>
     length (rq_m_ring_vector q) = rq_cap q \<and> unat (qb_m_size q) \<le> rq_cap q \<and>
     (0 < rq_cap q \<longrightarrow> unat (rq_m_index_out q) < rq_cap q \<and>
        unat (rq_m_index_in q) = slot q (unat (qb_m_size q))) \<and>
     (\<forall>i < unat (qb_m_size q). bag_ok (rq_m_ring_vector q ! slot q i))"

subsection \<open>Cells hold what was put\<close>

definition bag_filled :: "bag \<Rightarrow> bytes \<Rightarrow> u32 \<Rightarrow> bag" where
  "bag_filled b buf n =
     b\<lparr>bag_data := take (unat n) buf @ drop (unat n) (bag_data b),
       bag_has_data := True, bag_data_size := n\<rparr>"

definition bag_emptied :: "bag \<Rightarrow> bag" where
  "bag_emptied b = b\<lparr>bag_has_data := False, bag_data_size := 0\<rparr>"

lemma bag_put_ok:
  assumes "unat n \<le> length buf"
  shows "bag_put b buf n = Inr (n, bag_filled b buf n)"
  using assms by (simp add: bag_put_def bag_filled_def vector_resize_def)

lemma bag_filled_item:
  "unat n \<le> length buf \<Longrightarrow> bag_item (bag_filled b buf n) = take (unat n) buf"
  by (simp add: bag_item_def bag_filled_def)

lemma bag_filled_ok:
  "unat n \<le> length buf \<Longrightarrow> unat n < 65536 \<Longrightarrow> bag_ok (bag_filled b buf n)"
  by (simp add: bag_ok_def bag_filled_def)

lemma length_bag_item: "bag_ok b \<Longrightarrow> length (bag_item b) = unat (bag_data_size b)"
  by (simp add: bag_ok_def bag_item_def)

lemma take_bag_item: "m \<le> unat (bag_data_size b) \<Longrightarrow> take m (bag_item b) = take m (bag_data b)"
  by (simp add: bag_item_def min_def)

lemma bag_get_ok:
  assumes "bag_ok b" and "m = min (unat n) (length (bag_item b))" and "m \<le> length out"
  shows "\<exists>w. bag_get b out n = Inr (w, take m (bag_item b) @ drop m out, bag_emptied b) \<and> unat w = m"
proof -
  from assms(1) have d: "bag_has_data b" "unat (bag_data_size b) \<le> length (bag_data b)"
    by (simp_all add: bag_ok_def)
  from assms(1,2) have m: "unat (min n (bag_data_size b)) = m" by (simp add: length_bag_item)
  with assms(2) have "m \<le> unat (bag_data_size b)" by (simp add: length_bag_item [OF assms(1)])
  then have "take m (bag_data b) = take m (bag_item b)" by (simp add: take_bag_item)
  with d m assms(3) \<open>m \<le> unat (bag_data_size b)\<close> show ?thesis
    by (auto simp: bag_get_def Let_def bag_emptied_def simp del: unat_min)
qed

lemma bag_peek_of_get:
  assumes "bag_get b out n = Inr (w, out', b')" shows "bag_peek b out n = Inr (w, out')"
  using assms by (auto simp: bag_get_def bag_peek_def Let_def rbind_eq_Inr split: if_splits)

subsection \<open>Index arithmetic\<close>

lemma next_index:
  fixes w t :: u32
  assumes "unat w < unat t"
  shows "unat (if w + 1 = t then 0 else w + 1) = Suc (unat w) mod unat t"
proof -
  have "unat (w + 1) = Suc (unat w)"
    by (rule unat_Suc_u32) (use assms unat_u32_less [of t] in linarith)
  then show ?thesis
    using assms by (auto simp: word_unat_eq_iff mod_less)
qed

lemma slot_less: "0 < rq_cap q \<Longrightarrow> slot q i < rq_cap q"
  by (simp add: slot_def rq_cap_def)

lemma slot_inj: "i < rq_cap q \<Longrightarrow> j < rq_cap q \<Longrightarrow> slot q i = slot q j \<Longrightarrow> i = j"
  unfolding slot_def rq_cap_def by (rule mod_add_inj)

subsection \<open>Refinement of the bounded queue\<close>

text \<open>The states \<open>put\<close> and \<open>get\<close> reach when they change the ring.\<close>

definition rq_pushed :: "ring_queue \<Rightarrow> bytes \<Rightarrow> u16 \<Rightarrow> ring_queue" where
  "rq_pushed q buf n =
     q\<lparr>qb_m_status := STATUS_QUEUEBASE_OK,
       rq_m_ring_vector := (rq_m_ring_vector q)[unat (rq_m_index_in q) :=
         bag_filled (rq_m_ring_vector q ! unat (rq_m_index_in q)) buf (ucast n)],
       rq_m_index_in := (if rq_m_index_in q + 1 = rq_m_total_count q then 0 else rq_m_index_in q + 1),
       qb_m_size := qb_m_size q + 1\<rparr>"

definition rq_popped :: "ring_queue \<Rightarrow> ring_queue" where
  "rq_popped q =
     q\<lparr>qb_m_status := STATUS_QUEUEBASE_OK,
       rq_m_ring_vector := (rq_m_ring_vector q)[unat (rq_m_index_out q) :=
         bag_emptied (rq_m_ring_vector q ! unat (rq_m_index_out q))],
       rq_m_index_out := (if rq_m_index_out q + 1 = rq_m_total_count q then 0 else rq_m_index_out q + 1),
       qb_m_size := qb_m_size q - 1\<rparr>"

lemma rq_invD:
  assumes "rq_inv q"
  shows "length (rq_m_ring_vector q) = rq_cap q" "unat (qb_m_size q) \<le> rq_cap q"
    "0 < rq_cap q \<Longrightarrow> unat (rq_m_index_out q) < rq_cap q"
    "0 < rq_cap q \<Longrightarrow> unat (rq_m_index_in q) = slot q (unat (qb_m_size q))"
    "i < unat (qb_m_size q) \<Longrightarrow> bag_ok (rq_m_ring_vector q ! slot q i)"
  using assms by (auto simp: rq_inv_def)

lemma length_rq_cont: "length (rq_cont q) = unat (qb_m_size q)"
  by (simp add: rq_cont_def)

lemma RingQueue_put_room:
  assumes "rq_inv q" and "unat (qb_m_size q) < rq_cap q" and "unat n \<le> length buf"
  shows "RingQueue_put q buf n = Inr (n, rq_pushed q buf n)"
proof -
  have "unat (rq_m_index_in q) < length (rq_m_ring_vector q)"
    using rq_invD(1,4) [OF assms(1)] assms(2) slot_less [of q] by simp
  moreover have "qb_m_size q < rq_m_total_count q"
    using assms(2) by (simp add: rq_cap_def word_less_nat_alt)
  ultimately show ?thesis
    using assms(3)
    by (simp add: RingQueue_put_def RingQueue_reset_status_def Let_def bag_put_ok rq_pushed_def)
qed

lemma RingQueue_put_full:
  assumes "\<not> unat (qb_m_size q) < rq_cap q"
  shows "RingQueue_put q buf n = Inr (0, q\<lparr>qb_m_status := STATUS_QUEUEBASE_FULL\<rparr>)"
  using assms
  by (simp add: RingQueue_put_def RingQueue_reset_status_def Let_def rq_cap_def word_less_nat_alt)

lemma rq_status_irrelevant [simp]:
  "rq_inv (q\<lparr>qb_m_status := st\<rparr>) = rq_inv q" "rq_cont (q\<lparr>qb_m_status := st\<rparr>) = rq_cont q"
  "rq_cap (q\<lparr>qb_m_status := st\<rparr>) = rq_cap q"
  by (simp_all add: rq_inv_def rq_cont_def rq_cap_def slot_def)

lemma rq_pushed_simps:
  "rq_cap (rq_pushed q buf n) = rq_cap q" "slot (rq_pushed q buf n) i = slot q i"
  "qb_m_size (rq_pushed q buf n) = qb_m_size q + 1"
  "qb_m_status (rq_pushed q buf n) = STATUS_QUEUEBASE_OK"
  by (simp_all add: rq_pushed_def rq_cap_def slot_def)

lemma rq_pushed_bag:
  assumes "rq_inv q" and "unat (qb_m_size q) < rq_cap q" and "i \<le> unat (qb_m_size q)"
  shows "rq_m_ring_vector (rq_pushed q buf n) ! slot q i =
    (if i = unat (qb_m_size q)
     then bag_filled (rq_m_ring_vector q ! slot q i) buf (ucast n) else rq_m_ring_vector q ! slot q i)"
proof -
  have in_slot: "unat (rq_m_index_in q) = slot q (unat (qb_m_size q))"
    using rq_invD(4) [OF assms(1)] assms(2) by simp
  have "slot q (unat (qb_m_size q)) < length (rq_m_ring_vector q)"
    using rq_invD(1) [OF assms(1)] slot_less [of q] assms(2) by simp
  moreover have "slot q i = slot q (unat (qb_m_size q)) \<longleftrightarrow> i = unat (qb_m_size q)"
    using slot_inj [of i q "unat (qb_m_size q)"] assms(2,3) by auto
  ultimately show ?thesis
    unfolding rq_pushed_def using in_slot by (auto simp: nth_list_update)
qed

lemma rq_size_Suc:
  assumes "unat (qb_m_size q) < rq_cap q"
  shows "unat (qb_m_size q + 1) = Suc (unat (qb_m_size q))"
  by (rule unat_Suc_u32)
    (use assms unat_u32_less [of "rq_m_total_count q"] in \<open>unfold rq_cap_def, linarith\<close>)

lemma rq_pushed_cont:
  assumes "rq_inv q" and "unat (qb_m_size q) < rq_cap q" and "unat n \<le> length buf"
  shows "rq_cont (rq_pushed q buf n) = rq_cont q @ [take (unat n) buf]"
  using assms rq_size_Suc [OF assms(2)]
  by (simp add: rq_cont_def rq_pushed_simps rq_pushed_bag bag_filled_item)

lemma rq_pushed_inv:
  assumes "rq_inv q" and "unat (qb_m_size q) < rq_cap q" and "unat n \<le> length buf"
  shows "rq_inv (rq_pushed q buf n)"
proof -
  note I = rq_invD [OF assms(1)]
  have pos: "0 < rq_cap q" using assms(2) by simp
  have "unat (rq_m_index_in (rq_pushed q buf n)) = Suc (unat (rq_m_index_in q)) mod rq_cap q"
    using next_index [of "rq_m_index_in q" "rq_m_total_count q"] I(4) [OF pos] slot_less [OF pos]
    by (simp add: rq_pushed_def rq_cap_def)
  also have "\<dots> = slot q (Suc (unat (qb_m_size q)))"
    unfolding I(4) [OF pos] by (simp add: slot_def rq_cap_def mod_Suc_eq)
  finally have idx: "unat (rq_m_index_in (rq_pushed q buf n)) = slot q (Suc (unat (qb_m_size q)))" .
  have bags: "bag_ok (rq_m_ring_vector (rq_pushed q buf n) ! slot q i)"
    if "i < Suc (unat (qb_m_size q))" for i
    using that I(5) [of i] assms by (auto simp: rq_pushed_bag intro: bag_filled_ok)
  show ?thesis
    using I pos assms(2) idx bags rq_size_Suc [OF assms(2)]
    unfolding rq_inv_def rq_pushed_simps
    by (simp add: rq_pushed_def)
qed

lemma size_nonzero: "qb_m_size q \<noteq> 0 \<longleftrightarrow> 0 < unat (qb_m_size q)"
  by (simp add: unat_gt_0)

lemma rq_cont_Cons:
  assumes "0 < unat (qb_m_size q)"
  shows "rq_cont q = bag_item (rq_m_ring_vector q ! slot q 0)
    # map (\<lambda>i. bag_item (rq_m_ring_vector q ! slot q (Suc i))) [0..<unat (qb_m_size q) - 1]"
proof -
  obtain k where k: "unat (qb_m_size q) = Suc k" using assms by (cases "unat (qb_m_size q)") auto
  show ?thesis
    unfolding rq_cont_def k by (simp add: upt_conv_Cons map_Suc_upt [symmetric] del: upt_Suc)
qed

lemma slot_0: "rq_inv q \<Longrightarrow> 0 < unat (qb_m_size q) \<Longrightarrow> slot q 0 = unat (rq_m_index_out q)"
  using rq_invD(2,3) [of q] by (simp add: slot_def rq_cap_def)

lemma RingQueue_some:
  assumes "rq_inv q" and "rq_cont q = d # ds" and "unat n \<le> length out"
  shows "RingQueue_peek q out n =
    Inr (word_of_nat (min (unat n) (length d)),
         take (min (unat n) (length d)) d @ drop (min (unat n) (length d)) out,
         q\<lparr>qb_m_status := STATUS_QUEUEBASE_OK\<rparr>)"
    and "RingQueue_get q out n =
    Inr (word_of_nat (min (unat n) (length d)),
         take (min (unat n) (length d)) d @ drop (min (unat n) (length d)) out, rq_popped q)"
proof -
  note I = rq_invD [OF assms(1)]
  let ?b = "rq_m_ring_vector q ! unat (rq_m_index_out q)"
  let ?m = "min (unat n) (length d)"
  have pos: "0 < unat (qb_m_size q)" using assms(2) length_rq_cont [of q] by simp
  have d: "d = bag_item ?b" using rq_cont_Cons [OF pos] assms(2) slot_0 [OF assms(1) pos] by simp
  have ok: "bag_ok ?b" using I(5) [of 0] pos slot_0 [OF assms(1) pos] by simp
  have idx: "unat (rq_m_index_out q) < length (rq_m_ring_vector q)" using I(1,2,3) pos by simp
  have mm: "?m = min (unat (ucast n :: u32)) (length (bag_item ?b))" by (simp add: d)
  have le: "?m \<le> length out" using assms(3) by linarith
  obtain w where w: "bag_get ?b out (ucast n) = Inr (w, take ?m d @ drop ?m out, bag_emptied ?b)"
      "unat w = ?m"
    using bag_get_ok [OF ok mm le] unfolding d by blast
  have "?m < 65536" using unat_u16_less [of n] by linarith
  then have r: "(ucast w :: u16) = word_of_nat ?m" by (rule ucast_u32_u16_eq [OF w(2)])
  note p = bag_peek_of_get [OF w(1)]
  show "RingQueue_peek q out n = Inr (word_of_nat ?m, take ?m d @ drop ?m out,
      q\<lparr>qb_m_status := STATUS_QUEUEBASE_OK\<rparr>)"
    using p pos idx r
    by (simp add: RingQueue_peek_def RingQueue_reset_status_def Let_def size_nonzero)
  show "RingQueue_get q out n = Inr (word_of_nat ?m, take ?m d @ drop ?m out, rq_popped q)"
    using w(1) pos idx r
    by (simp add: RingQueue_get_def RingQueue_reset_status_def Let_def size_nonzero rq_popped_def)
qed

lemma RingQueue_none:
  assumes "rq_cont q = []"
  shows "RingQueue_get q out n = Inr (0, out, q\<lparr>qb_m_status := STATUS_QUEUEBASE_EMPTY\<rparr>)"
    and "RingQueue_peek q out n = Inr (0, out, q\<lparr>qb_m_status := STATUS_QUEUEBASE_EMPTY\<rparr>)"
proof -
  have "qb_m_size q = 0" using assms length_rq_cont [of q] by (simp add: unat_eq_zero)
  then show "RingQueue_get q out n = Inr (0, out, q\<lparr>qb_m_status := STATUS_QUEUEBASE_EMPTY\<rparr>)"
    and "RingQueue_peek q out n = Inr (0, out, q\<lparr>qb_m_status := STATUS_QUEUEBASE_EMPTY\<rparr>)"
    by (simp_all add: RingQueue_get_def RingQueue_peek_def RingQueue_reset_status_def Let_def)
qed

lemma rq_popped_simps:
  "rq_cap (rq_popped q) = rq_cap q" "qb_m_size (rq_popped q) = qb_m_size q - 1"
  "qb_m_status (rq_popped q) = STATUS_QUEUEBASE_OK"
  by (simp_all add: rq_popped_def rq_cap_def)

lemma rq_popped_slot:
  assumes "rq_inv q" and "0 < unat (qb_m_size q)"
  shows "unat (rq_m_index_out (rq_popped q)) = Suc (unat (rq_m_index_out q)) mod rq_cap q"
    and "slot (rq_popped q) i = slot q (Suc i)"
proof -
  note I = rq_invD [OF assms(1)]
  show *: "unat (rq_m_index_out (rq_popped q)) = Suc (unat (rq_m_index_out q)) mod rq_cap q"
    using next_index [of "rq_m_index_out q" "rq_m_total_count q"] I(2,3) assms(2)
    by (simp add: rq_popped_def rq_cap_def)
  have "rq_m_total_count (rq_popped q) = rq_m_total_count q" by (simp add: rq_popped_def)
  then show "slot (rq_popped q) i = slot q (Suc i)"
    by (simp add: slot_def * rq_cap_def mod_add_left_eq)
qed

lemma rq_popped_bag:
  assumes "rq_inv q" and "Suc i < unat (qb_m_size q)"
  shows "rq_m_ring_vector (rq_popped q) ! slot q (Suc i) = rq_m_ring_vector q ! slot q (Suc i)"
proof -
  have "slot q (Suc i) \<noteq> slot q 0"
    using slot_inj [of "Suc i" q 0] rq_invD(2) [OF assms(1)] assms(2) by auto
  then show ?thesis
    using slot_0 [OF assms(1)] assms(2) by (simp add: rq_popped_def)
qed

lemma rq_popped_cont:
  assumes "rq_inv q" and "0 < unat (qb_m_size q)"
  shows "rq_cont (rq_popped q) = tl (rq_cont q)"
  using assms rq_cont_Cons [OF assms(2)]
  by (simp add: rq_cont_def rq_popped_simps unat_pred_u32 size_nonzero rq_popped_slot(2) rq_popped_bag)

lemma rq_popped_inv:
  assumes "rq_inv q" and "0 < unat (qb_m_size q)"
  shows "rq_inv (rq_popped q)"
proof -
  note I = rq_invD [OF assms(1)]
  have pos: "0 < rq_cap q" using I(2) assms(2) by simp
  have sz: "unat (qb_m_size q - 1) = unat (qb_m_size q) - 1"
    using assms(2) by (simp add: unat_pred_u32 size_nonzero)
  have "unat (rq_m_index_in (rq_popped q)) = slot (rq_popped q) (unat (qb_m_size (rq_popped q)))"
    using I(4) [OF pos] assms(2)
    by (simp add: rq_popped_slot(2) [OF assms] rq_popped_simps sz) (simp add: rq_popped_def)
  moreover have "unat (rq_m_index_out (rq_popped q)) < rq_cap q"
    using rq_popped_slot(1) [OF assms] pos by simp
  moreover have "bag_ok (rq_m_ring_vector (rq_popped q) ! slot (rq_popped q) i)"
    if "i < unat (qb_m_size q) - 1" for i
    using that I(5) [of "Suc i"] by (simp add: rq_popped_slot(2) [OF assms] rq_popped_bag [OF assms(1)])
  moreover have "length (rq_m_ring_vector (rq_popped q)) = rq_cap q"
    using I(1) by (simp add: rq_popped_def)
  ultimately show ?thesis
    unfolding rq_inv_def rq_popped_simps sz using I(2) assms(2) by simp
qed

subsection \<open>The ring buffer provides the queue interface\<close>

definition RingQueue_impl :: "ring_queue fifo_impl" where
  "RingQueue_impl =
     \<lparr>im_put = RingQueue_put, im_get = RingQueue_get, im_peek = RingQueue_peek,
      im_status = RingQueue_get_status, im_size = RingQueue_size\<rparr>"

lemma RingQueue_impl_simps [simp]:
  "im_put RingQueue_impl = RingQueue_put" "im_get RingQueue_impl = RingQueue_get"
  "im_peek RingQueue_impl = RingQueue_peek" "im_size RingQueue_impl = RingQueue_size"
  "im_status RingQueue_impl = qb_m_status"
  by (simp_all add: RingQueue_impl_def fun_eq_iff op_defs)

lemma RingQueue_put_refines:
  assumes "rq_inv q" and "unat n \<le> length buf"
  shows "\<exists>r q'. RingQueue_put q buf n = Inr (r, q') \<and> rq_inv q' \<and> rq_cap q' = rq_cap q
    \<and> (r, qb_m_status q', rq_cont q') = fifo_put (rq_cap q) (rq_cont q) buf n"
proof (cases "unat (qb_m_size q) < rq_cap q")
  case True
  with assms show ?thesis
    by (simp add: RingQueue_put_room rq_pushed_inv rq_pushed_simps rq_pushed_cont fifo_put_def
        length_rq_cont)
next
  case False
  with assms show ?thesis
    by (simp add: RingQueue_put_full fifo_put_def length_rq_cont)
qed

lemma rq_cont_pos: "rq_cont q = d # ds \<Longrightarrow> 0 < unat (qb_m_size q)"
  using length_rq_cont [of q] by simp

lemma RingQueue_get_refines:
  assumes "rq_inv q" and "unat n \<le> length out"
  shows "\<exists>r out' q'. RingQueue_get q out n = Inr (r, out', q') \<and> rq_inv q' \<and> rq_cap q' = rq_cap q
    \<and> (r, out', qb_m_status q', rq_cont q') = fifo_get (rq_cont q) out n"
proof (cases "rq_cont q")
  case Nil
  with assms(1) show ?thesis by (simp add: RingQueue_none)
next
  case (Cons d ds)
  with assms show ?thesis
    using RingQueue_some(2) [OF assms(1) Cons assms(2)] rq_cont_pos [OF Cons]
    by (simp add: rq_popped_inv rq_popped_cont rq_popped_simps)
qed

lemma RingQueue_peek_refines:
  assumes "rq_inv q" and "unat n \<le> length out"
  shows "\<exists>r out' q'. RingQueue_peek q out n = Inr (r, out', q') \<and> rq_inv q' \<and> rq_cap q' = rq_cap q
    \<and> rq_cont q' = rq_cont q \<and> (r, out', qb_m_status q') = fifo_peek (rq_cont q) out n"
proof (cases "rq_cont q")
  case Nil
  with assms(1) show ?thesis by (simp add: RingQueue_none fifo_peek_def)
next
  case (Cons d ds)
  with assms show ?thesis
    using RingQueue_some(1) [OF assms(1) Cons assms(2)] by (simp add: fifo_peek_def Let_def)
qed

lemma rq_items: "rq_inv q \<Longrightarrow> item_bound (rq_cont q)"
  by (auto simp: item_bound_def rq_cont_def length_bag_item dest!: rq_invD(5))
    (meson bag_ok_def)

interpretation rq: bounded_fifo RingQueue_impl rq_inv rq_cont rq_cap
proof
  fix q :: ring_queue
  assume "rq_inv q"
  then show "length (rq_cont q) \<le> rq_cap q" "item_bound (rq_cont q)"
    "unat (im_size RingQueue_impl q) = length (rq_cont q)"
    using rq_invD(2) rq_items by (simp_all add: length_rq_cont op_defs)
qed (use RingQueue_put_refines RingQueue_get_refines RingQueue_peek_refines in simp_all)

lemma RingQueue_ctor_simps [simp]:
  "qb_m_size (RingQueue_ctor c s) = 0" "rq_m_total_count (RingQueue_ctor c s) = c"
  "rq_m_index_in (RingQueue_ctor c s) = 0" "rq_m_index_out (RingQueue_ctor c s) = 0"
  "rq_m_ring_vector (RingQueue_ctor c s) = replicate (unat c) (bag_ctor s)"
  "qb_m_total_count (RingQueue_ctor c s) = 0" "qb_m_status (RingQueue_ctor c s) = STATUS_QUEUEBASE_OK"
  by (simp_all add: RingQueue_ctor_def RingQueue_reset_status_def QueueBase_ctor_def
      queue_base.defs ring_queue.defs)

lemma RingQueue_ctor_fresh:
  "rq_inv (RingQueue_ctor c s)" "rq_cont (RingQueue_ctor c s) = []" "rq_cap (RingQueue_ctor c s) = unat c"
  by (simp_all add: rq_inv_def rq_cont_def rq_cap_def slot_def)

subsection \<open>The inherited capacity\<close>

lemma shadowed_count_kept:
  "RingQueue_put q buf n = Inr (r, q') \<Longrightarrow> qb_m_total_count q' = qb_m_total_count q"
  "RingQueue_get q out n = Inr (r, o', q') \<Longrightarrow> qb_m_total_count q' = qb_m_total_count q"
  "RingQueue_peek q out n = Inr (r, o', q') \<Longrightarrow> qb_m_total_count q' = qb_m_total_count q"
  by (auto simp: RingQueue_put_def RingQueue_get_def RingQueue_peek_def RingQueue_reset_status_def
      Let_def rbind_eq_Inr split: if_splits)

lemma fifo_step_shadowed:
  "fifo_step RingQueue_impl q p = Inr (b, q') \<Longrightarrow> qb_m_total_count q' = qb_m_total_count q"
  by (cases p) (auto simp: rbind_eq_Inr dest: shadowed_count_kept)

lemma fifo_run_shadowed:
  "fifo_run RingQueue_impl q ps = Inr (bs, q') \<Longrightarrow> qb_m_total_count q' = qb_m_total_count q"
  by (induction ps arbitrary: q bs) (auto simp: rbind_eq_Inr dest!: fifo_step_shadowed)

subsection \<open>Properties\<close>

text \<open>
  C3. Whatever sequence of \<open>put\<close>, \<open>get\<close> and \<open>peek\<close> calls a client makes on a freshly constructed
  \<open>RingQueue\<close> of \<open>c\<close> cells, with buffers as large as the sizes it passes, no call faults, and every
  return value, output buffer and status the client sees, call by call, is that of a bounded FIFO of
  capacity \<open>c\<close>; the ring then stores the contents of that FIFO. The cell size plays no part.
\<close>

theorem RingQueue_is_bounded_fifo:
  assumes "list_all fifo_op_ok ps"
  shows "\<exists>bs q'. fifo_run RingQueue_impl (RingQueue_ctor c s) ps = Inr (bs, q') \<and> rq_inv q'
    \<and> spec_run (unat c) [] ps = (bs, rq_cont q')"
  using rq.run_simulates [OF RingQueue_ctor_fresh(1) assms, of c s]
  by (auto simp: RingQueue_ctor_fresh)

theorem RingQueue_is_bounded_fifo_witness:
  "\<exists>bs q'. fifo_run RingQueue_impl (RingQueue_ctor 1 2)
      [Put [1, 2, 3] 3, Put [9] 1, Peek [0] 1, Get [0, 0, 0, 0] 4, Get [7] 1] = Inr (bs, q') \<and> rq_inv q'
    \<and> spec_run (unat (1 :: u32)) []
      [Put [1, 2, 3] 3, Put [9] 1, Peek [0] 1, Get [0, 0, 0, 0] 4, Get [7] 1] = (bs, rq_cont q')
    \<and> map obs_ret bs = [3, 0, 1, 3, 0] \<and> map obs_buf bs ! 3 = [1, 2, 3, 0]"
proof -
  let ?ps = "[Put [1, 2, 3] 3, Put [9] 1, Peek [0] 1, Get [0, 0, 0, 0] 4, Get [7] 1]"
  have "list_all fifo_op_ok ?ps" by simp
  from RingQueue_is_bounded_fifo [OF this, of 1 2] obtain bs q' where
    r: "fifo_run RingQueue_impl (RingQueue_ctor 1 2) ?ps = Inr (bs, q')" "rq_inv q'"
      "spec_run (unat (1 :: u32)) [] ?ps = (bs, rq_cont q')" by blast
  then have "map obs_ret bs = [3, 0, 1, 3, 0]" "map obs_buf bs ! 3 = [1, 2, 3, 0]"
    by (auto simp: fifo_put_def fifo_peek_def Let_def)
  with r show ?thesis by (intro exI conjI)
qed



text \<open>
  One \<open>get\<close> on a consistent ring, on every branch: on an empty ring it returns 0, leaves the
  caller's buffer alone and sets the status to EMPTY; otherwise it removes the whole oldest item,
  copies as many of its bytes as the caller asked for to the front of the caller's buffer, returns
  that number and sets the status to OK. The rest of the item is gone: in particular
  \<open>get(buf, 0)\<close> drops the item and returns 0, as on an empty ring.
\<close>

theorem RingQueue_get_behaviour:
  assumes "rq_inv q" and "unat n \<le> length out"
  shows "\<exists>r out' q'. RingQueue_get q out n = Inr (r, out', q') \<and> rq_inv q' \<and>
    (case rq_cont q of
       [] \<Rightarrow> r = 0 \<and> out' = out \<and> rq_cont q' = [] \<and> qb_m_status q' = STATUS_QUEUEBASE_EMPTY
     | d # ds \<Rightarrow> unat r = min (unat n) (length d) \<and> take (unat r) out' = take (unat r) d
         \<and> drop (unat r) out' = drop (unat r) out \<and> length out' = length out
         \<and> rq_cont q' = ds \<and> qb_m_status q' = STATUS_QUEUEBASE_OK)"
proof (cases "rq_cont q")
  case Nil
  then show ?thesis using assms by (simp add: RingQueue_none)
next
  case (Cons d ds)
  have "min (unat n) (length d) < 65536" using unat_u16_less [of n] by linarith
  then have "unat (word_of_nat (min (unat n) (length d)) :: u16) = min (unat n) (length d)"
    by (simp add: unat_of_nat)
  then show ?thesis
    using RingQueue_some(2) [OF assms(1) Cons assms(2)] rq_cont_pos [OF Cons] assms Cons
    by (simp add: rq_popped_inv rq_popped_cont rq_popped_simps min_def)
qed

theorem RingQueue_get_behaviour_witness:
  "\<exists>r out' q'. RingQueue_get (rq_pushed (RingQueue_ctor 2 4) [5, 6, 7] 3) [0, 0, 9] 2 = Inr (r, out', q')
    \<and> rq_inv q' \<and> unat r = 2 \<and> take (unat r) out' = [5, 6] \<and> rq_cont q' = []"
proof -
  let ?q = "rq_pushed (RingQueue_ctor 2 4) [5, 6, 7] 3"
  have f: "rq_inv (RingQueue_ctor 2 4)" "unat (qb_m_size (RingQueue_ctor 2 4)) < rq_cap (RingQueue_ctor 2 4)"
    by (simp_all add: RingQueue_ctor_fresh)
  have "rq_inv ?q" by (rule rq_pushed_inv [OF f]) simp
  moreover have "rq_cont ?q = [[5, 6, 7]]"
    using rq_pushed_cont [OF f, of 3 "[5, 6, 7]"] by (simp add: RingQueue_ctor_fresh)
  ultimately show ?thesis
    using RingQueue_get_behaviour [of ?q 2 "[0, 0, 9]"] by (fastforce simp: min_def)
qed

text \<open>
  The inherited \<open>capacity()\<close> of a ring buffer is 0 after any sequence of calls, whatever its
  number of cells: the constructor writes the count into \<open>RingQueue\<close>'s own \<open>m_total_count\<close>, and
  \<open>QueueBase::capacity\<close> reads the shadowed field of the base class, which nothing ever sets.
\<close>

theorem RingQueue_capacity_always_zero:
  assumes "fifo_run RingQueue_impl (RingQueue_ctor c s) ps = Inr (bs, q')"
  shows "RingQueue_capacity q' = 0"
  using fifo_run_shadowed [OF assms] by (simp add: op_defs)

theorem RingQueue_capacity_always_zero_witness:
  "fifo_run RingQueue_impl RingQueue_default [] = Inr ([], RingQueue_default)
   \<and> RingQueue_capacity RingQueue_default = 0 \<and> rq_cap RingQueue_default = 20"
  using RingQueue_capacity_always_zero [of 20 65535 "[]" "[]" RingQueue_default]
  by (simp add: RingQueue_default_def RingQueue_ctor_fresh)

text \<open>
  Round trip: a byte string put into an empty ring with room comes back unchanged, in a buffer
  at least as large, even when it is larger than the cell the ring was built with; the rest of the
  caller's buffer is untouched and the ring is empty again.
\<close>

theorem RingQueue_put_get_roundtrip:
  assumes "0 < unat c" and "unat n \<le> length buf" and "unat m \<le> length out" and "unat n \<le> unat m"
  shows "\<exists>q1 q2. RingQueue_put (RingQueue_ctor c s) buf n = Inr (n, q1)
    \<and> RingQueue_get q1 out m = Inr (n, take (unat n) buf @ drop (unat n) out, q2) \<and> rq_cont q2 = []"
  using rq.put_get_roundtrip [OF RingQueue_ctor_fresh(1,2)] assms by (simp add: RingQueue_ctor_fresh)

theorem RingQueue_put_get_roundtrip_witness:
  "\<exists>q1 q2. RingQueue_put (RingQueue_ctor 10 2) [1, 2, 3, 4] 4 = Inr (4, q1)
    \<and> RingQueue_get q1 [0, 0, 0, 0, 0] 5 = Inr (4, [1, 2, 3, 4, 0], q2) \<and> rq_cont q2 = []"
  using RingQueue_put_get_roundtrip [of 10 4 "[1, 2, 3, 4]" 5 "[0, 0, 0, 0, 0]" 2] by simp

end
