(* ===== verification/Queue_Decorators.thy ===== *)
theory Queue_Decorators
  imports Ring_Queue
begin

text \<open>
  \<open>containers/RingQueueBlockDecorators.h\<close> and \<open>.cpp\<close>: the decorators that add blocking to a queue.

  A decorated queue is a chain of decorators around a \<open>RingQueue\<close>; \<open>queue_obj\<close> is that chain, with
  the dynamic class of each decorator and the three synchronisation objects it points to. The
  objects behind the \<open>shared_ptr\<close>s are numbers handed out by an allocation counter, so that two
  decorators share a mutex when they hold the same number. The chain owns its wrappee, as every chain
  the program builds does.

  This theory gives the calls of one thread that runs alone: a wait that only another thread can end
  is \<open>Inl Blocked\<close>, a timed wait ends by its timeout. Theory \<open>Blocking_Machine\<close> runs several threads.
\<close>

subsection \<open>Objects and construction\<close>

record syncs =
  sy_m_mutex :: nat
  sy_m_condition_full :: nat
  sy_m_condition_empty :: nat

text \<open>The dynamic class of a decorator; the timed ones carry \<open>m_wait_time_ms\<close>.\<close>

datatype deco_class =
  RingQueueBlockBaseDecorator | RQ_BlockWriteDecorator | RQ_BlockReadDecorator
  | RQ_BlockWriteTimedDecorator u32 | RQ_BlockReadTimedDecorator u32
  | RQ_NoBlockWriteDecorator | RQ_NoBlockReadDecorator

datatype queue_obj = Ring ring_queue | Deco deco_class syncs queue_obj

primrec core :: "queue_obj \<Rightarrow> ring_queue" where
  "core (Ring q) = q"
| "core (Deco k s w) = core w"

primrec with_core :: "queue_obj \<Rightarrow> ring_queue \<Rightarrow> queue_obj" where
  "with_core (Ring q) q' = Ring q'"
| "with_core (Deco k s w) q' = Deco k s (with_core w q')"

text \<open>\<open>set_syncs\<close> assigns the three pointers of one decorator and does not look at its wrappee.\<close>

fun deco_set_syncs :: "queue_obj \<Rightarrow> syncs \<Rightarrow> queue_obj" where
  "deco_set_syncs (Deco k s w) s' = Deco k s' w"
| "deco_set_syncs (Ring q) s' = Ring q"

text \<open>
  The constructor: its own pointers are still null, so it always allocates a mutex and two condition
  variables; when \<open>dynamic_pointer_cast\<close> finds that the wrappee is a decorator, it hands them down.
  \<open>next\<close> is the allocation counter.
\<close>

definition deco_ctor :: "deco_class \<Rightarrow> queue_obj \<Rightarrow> nat \<Rightarrow> queue_obj \<times> nat" where
  "deco_ctor k inner next =
     (let s = \<lparr>sy_m_mutex = next, sy_m_condition_full = next + 1, sy_m_condition_empty = next + 2\<rparr>
      in (Deco k s (deco_set_syncs inner s), next + 3))"

text \<open>The constructors of the decorator classes: that of the base class, and the time of a timed one.\<close>

definition RQ_BlockWriteDecorator_ctor :: "queue_obj \<Rightarrow> nat \<Rightarrow> queue_obj \<times> nat" where
  "RQ_BlockWriteDecorator_ctor inner next = deco_ctor RQ_BlockWriteDecorator inner next"

definition RQ_BlockReadDecorator_ctor :: "queue_obj \<Rightarrow> nat \<Rightarrow> queue_obj \<times> nat" where
  "RQ_BlockReadDecorator_ctor inner next = deco_ctor RQ_BlockReadDecorator inner next"

definition RQ_BlockWriteTimedDecorator_ctor :: "queue_obj \<Rightarrow> u32 \<Rightarrow> nat \<Rightarrow> queue_obj \<times> nat" where
  "RQ_BlockWriteTimedDecorator_ctor inner timeout_ms next = deco_ctor (RQ_BlockWriteTimedDecorator timeout_ms) inner next"

definition RQ_BlockReadTimedDecorator_ctor :: "queue_obj \<Rightarrow> u32 \<Rightarrow> nat \<Rightarrow> queue_obj \<times> nat" where
  "RQ_BlockReadTimedDecorator_ctor inner timeout_ms next = deco_ctor (RQ_BlockReadTimedDecorator timeout_ms) inner next"

definition RQ_NoBlockWriteDecorator_ctor :: "queue_obj \<Rightarrow> nat \<Rightarrow> queue_obj \<times> nat" where
  "RQ_NoBlockWriteDecorator_ctor inner next = deco_ctor RQ_NoBlockWriteDecorator inner next"

definition RQ_NoBlockReadDecorator_ctor :: "queue_obj \<Rightarrow> nat \<Rightarrow> queue_obj \<times> nat" where
  "RQ_NoBlockReadDecorator_ctor inner next = deco_ctor RQ_NoBlockReadDecorator inner next"

text \<open>A chain built by nested constructor calls, innermost decorator first; \<open>construct\<close> picks the class.\<close>

fun construct :: "deco_class \<Rightarrow> queue_obj \<Rightarrow> nat \<Rightarrow> queue_obj \<times> nat" where
  "construct RingQueueBlockBaseDecorator inner next = deco_ctor RingQueueBlockBaseDecorator inner next"
| "construct RQ_BlockWriteDecorator inner next = RQ_BlockWriteDecorator_ctor inner next"
| "construct RQ_BlockReadDecorator inner next = RQ_BlockReadDecorator_ctor inner next"
| "construct (RQ_BlockWriteTimedDecorator t) inner next = RQ_BlockWriteTimedDecorator_ctor inner t next"
| "construct (RQ_BlockReadTimedDecorator t) inner next = RQ_BlockReadTimedDecorator_ctor inner t next"
| "construct RQ_NoBlockWriteDecorator inner next = RQ_NoBlockWriteDecorator_ctor inner next"
| "construct RQ_NoBlockReadDecorator inner next = RQ_NoBlockReadDecorator_ctor inner next"

lemma construct_is_ctor [simp]: "construct k inner next = deco_ctor k inner next"
  by (cases k)
    (simp_all add: RQ_BlockWriteDecorator_ctor_def RQ_BlockReadDecorator_ctor_def
      RQ_BlockWriteTimedDecorator_ctor_def RQ_BlockReadTimedDecorator_ctor_def
      RQ_NoBlockWriteDecorator_ctor_def RQ_NoBlockReadDecorator_ctor_def)

declare construct.simps [simp del]

fun deco_build :: "deco_class list \<Rightarrow> queue_obj \<Rightarrow> nat \<Rightarrow> queue_obj \<times> nat" where
  "deco_build [] q next = (q, next)"
| "deco_build (k # ks) q next = (case construct k q next of (q', next') \<Rightarrow> deco_build ks q' next')"

subsection \<open>Accessors\<close>

primrec deco_capacity :: "queue_obj \<Rightarrow> u32" where
  "deco_capacity (Ring q) = RingQueue_capacity q"
| "deco_capacity (Deco k s w) = deco_capacity w"

primrec deco_size :: "queue_obj \<Rightarrow> u32" where
  "deco_size (Ring q) = RingQueue_size q"
| "deco_size (Deco k s w) = deco_size w"

primrec deco_get_status :: "queue_obj \<Rightarrow> QUEUEBASE_STATUS" where
  "deco_get_status (Ring q) = RingQueue_get_status q"
| "deco_get_status (Deco k s w) = deco_get_status w"

subsection \<open>Waiting\<close>

text \<open>
  \<open>wait_function_put\<close> and \<open>wait_function_get\<close> without a timeout loop while the queue is full or
  empty; a thread that runs alone never leaves that loop once it has entered it. With a timeout they
  wait once, if at all, and then go on whatever the queue holds; the result of the timed versions is
  the time in milliseconds that a thread that nobody notifies spends in them.
\<close>

definition wait_function_put :: "queue_obj \<Rightarrow> unit result" where
  "wait_function_put w = (if deco_size w \<ge> deco_capacity w then Inl Blocked else Inr ())"

definition wait_function_get :: "queue_obj \<Rightarrow> unit result" where
  "wait_function_get w = (if deco_size w \<le> 0 then Inl Blocked else Inr ())"

definition wait_function_put_timed :: "queue_obj \<Rightarrow> u32 \<Rightarrow> u32 result" where
  "wait_function_put_timed w wait_msecs =
     (if deco_size w \<ge> deco_capacity w then Inr wait_msecs else Inr 0)"

definition wait_function_get_timed :: "queue_obj \<Rightarrow> u32 \<Rightarrow> u32 result" where
  "wait_function_get_timed w wait_msecs =
     (if deco_size w \<le> 0 then Inr wait_msecs else Inr 0)"

text \<open>\<open>unique_lock\<close>: \<open>held\<close> lists the mutexes the calling thread holds.\<close>

definition lock_mutex :: "nat list \<Rightarrow> nat \<Rightarrow> nat list result" where
  "lock_mutex held m = (if m \<in> set held then Inl Self_Deadlock else Inr (m # held))"

subsection \<open>The overriding methods\<close>

text \<open>
  One definition per method of a class. \<open>call\<close> is the call of the same method on the wrappee \<open>w\<close>, as
  a function of the mutexes the thread then holds. The lock is released when the method returns, and
  notifications have no effect on a thread that runs alone.
\<close>

definition RQ_BlockWriteDecorator_put ::
  "nat list \<Rightarrow> syncs \<Rightarrow> queue_obj \<Rightarrow> (nat list \<Rightarrow> 'a result) \<Rightarrow> 'a result" where
  "RQ_BlockWriteDecorator_put held s w call =
     rbind (lock_mutex held (sy_m_mutex s)) (\<lambda>held'. rbind (wait_function_put w) (\<lambda>_. call held'))"

definition RQ_BlockReadDecorator_get ::
  "nat list \<Rightarrow> syncs \<Rightarrow> queue_obj \<Rightarrow> (nat list \<Rightarrow> 'a result) \<Rightarrow> 'a result" where
  "RQ_BlockReadDecorator_get held s w call =
     rbind (lock_mutex held (sy_m_mutex s)) (\<lambda>held'. rbind (wait_function_get w) (\<lambda>_. call held'))"

definition RQ_BlockReadDecorator_peek ::
  "nat list \<Rightarrow> syncs \<Rightarrow> queue_obj \<Rightarrow> (nat list \<Rightarrow> 'a result) \<Rightarrow> 'a result" where
  "RQ_BlockReadDecorator_peek held s w call =
     rbind (lock_mutex held (sy_m_mutex s)) (\<lambda>held'. rbind (wait_function_get w) (\<lambda>_. call held'))"

definition RQ_BlockWriteTimedDecorator_put ::
  "u32 \<Rightarrow> nat list \<Rightarrow> syncs \<Rightarrow> queue_obj \<Rightarrow> (nat list \<Rightarrow> 'a result) \<Rightarrow> 'a result" where
  "RQ_BlockWriteTimedDecorator_put wait_time_ms held s w call =
     rbind (lock_mutex held (sy_m_mutex s)) (\<lambda>held'.
     rbind (wait_function_put_timed w wait_time_ms) (\<lambda>_. call held'))"

definition RQ_BlockReadTimedDecorator_get ::
  "u32 \<Rightarrow> nat list \<Rightarrow> syncs \<Rightarrow> queue_obj \<Rightarrow> (nat list \<Rightarrow> 'a result) \<Rightarrow> 'a result" where
  "RQ_BlockReadTimedDecorator_get wait_time_ms held s w call =
     rbind (lock_mutex held (sy_m_mutex s)) (\<lambda>held'.
     rbind (wait_function_get_timed w wait_time_ms) (\<lambda>_. call held'))"

definition RQ_BlockReadTimedDecorator_peek ::
  "u32 \<Rightarrow> nat list \<Rightarrow> syncs \<Rightarrow> queue_obj \<Rightarrow> (nat list \<Rightarrow> 'a result) \<Rightarrow> 'a result" where
  "RQ_BlockReadTimedDecorator_peek wait_time_ms held s w call =
     rbind (lock_mutex held (sy_m_mutex s)) (\<lambda>held'.
     rbind (wait_function_get_timed w wait_time_ms) (\<lambda>_. call held'))"

definition RQ_NoBlockWriteDecorator_put :: "nat list \<Rightarrow> (nat list \<Rightarrow> 'a result) \<Rightarrow> 'a result" where
  "RQ_NoBlockWriteDecorator_put held call = call held"

definition RQ_NoBlockReadDecorator_get :: "nat list \<Rightarrow> (nat list \<Rightarrow> 'a result) \<Rightarrow> 'a result" where
  "RQ_NoBlockReadDecorator_get held call = call held"

lemmas [op_defs] =
  RQ_BlockWriteDecorator_put_def RQ_BlockReadDecorator_get_def RQ_BlockReadDecorator_peek_def
  RQ_BlockWriteTimedDecorator_put_def RQ_BlockReadTimedDecorator_get_def
  RQ_BlockReadTimedDecorator_peek_def RQ_NoBlockWriteDecorator_put_def RQ_NoBlockReadDecorator_get_def
  lock_mutex_def wait_function_put_timed_def wait_function_get_timed_def

subsection \<open>Virtual dispatch\<close>

text \<open>
  A class that does not override a method inherits the plain delegation of the base decorator.
\<close>

fun deco_put :: "nat list \<Rightarrow> queue_obj \<Rightarrow> bytes \<Rightarrow> u16 \<Rightarrow> (u16 \<times> queue_obj) result" where
  "deco_put held (Ring q) buf n =
     rbind (RingQueue_put q buf n) (\<lambda>(r, q'). Inr (r, Ring q'))"
| "deco_put held (Deco k s w) buf n =
     rbind (case k of
        RQ_BlockWriteDecorator \<Rightarrow> RQ_BlockWriteDecorator_put held s w (\<lambda>h. deco_put h w buf n)
      | RQ_BlockWriteTimedDecorator t \<Rightarrow> RQ_BlockWriteTimedDecorator_put t held s w (\<lambda>h. deco_put h w buf n)
      | RQ_NoBlockWriteDecorator \<Rightarrow> RQ_NoBlockWriteDecorator_put held (\<lambda>h. deco_put h w buf n)
      | _ \<Rightarrow> deco_put held w buf n)
     (\<lambda>(r, w'). Inr (r, Deco k s w'))"

fun deco_get :: "nat list \<Rightarrow> queue_obj \<Rightarrow> bytes \<Rightarrow> u16 \<Rightarrow> (u16 \<times> bytes \<times> queue_obj) result" where
  "deco_get held (Ring q) out n =
     rbind (RingQueue_get q out n) (\<lambda>(r, out', q'). Inr (r, out', Ring q'))"
| "deco_get held (Deco k s w) out n =
     rbind (case k of
        RQ_BlockReadDecorator \<Rightarrow> RQ_BlockReadDecorator_get held s w (\<lambda>h. deco_get h w out n)
      | RQ_BlockReadTimedDecorator t \<Rightarrow> RQ_BlockReadTimedDecorator_get t held s w (\<lambda>h. deco_get h w out n)
      | RQ_NoBlockReadDecorator \<Rightarrow> RQ_NoBlockReadDecorator_get held (\<lambda>h. deco_get h w out n)
      | _ \<Rightarrow> deco_get held w out n)
     (\<lambda>(r, out', w'). Inr (r, out', Deco k s w'))"

fun deco_peek :: "nat list \<Rightarrow> queue_obj \<Rightarrow> bytes \<Rightarrow> u16 \<Rightarrow> (u16 \<times> bytes \<times> queue_obj) result" where
  "deco_peek held (Ring q) out n =
     rbind (RingQueue_peek q out n) (\<lambda>(r, out', q'). Inr (r, out', Ring q'))"
| "deco_peek held (Deco k s w) out n =
     rbind (case k of
        RQ_BlockReadDecorator \<Rightarrow> RQ_BlockReadDecorator_peek held s w (\<lambda>h. deco_peek h w out n)
      | RQ_BlockReadTimedDecorator t \<Rightarrow> RQ_BlockReadTimedDecorator_peek t held s w (\<lambda>h. deco_peek h w out n)
      | _ \<Rightarrow> deco_peek held w out n)
     (\<lambda>(r, out', w'). Inr (r, out', Deco k s w'))"

subsection \<open>Delegation\<close>

lemma deco_accessors_core:
  "deco_capacity w = RingQueue_capacity (core w)" "deco_size w = RingQueue_size (core w)"
  "deco_get_status w = RingQueue_get_status (core w)"
  by (induction w) simp_all

lemma core_with_core [simp]: "core (with_core w q) = q"
  by (induction w) simp_all

lemma with_core_core [simp]: "with_core w (core w) = w"
  by (induction w) simp_all

text \<open>Which decorators block, and which mutexes a \<open>put\<close> or a \<open>get\<close> locks on its way to the ring.\<close>

fun put_blocks :: "deco_class \<Rightarrow> bool" where
  "put_blocks RQ_BlockWriteDecorator = True"
| "put_blocks _ = False"

fun get_blocks :: "deco_class \<Rightarrow> bool" where
  "get_blocks RQ_BlockReadDecorator = True"
| "get_blocks _ = False"

fun put_locks :: "queue_obj \<Rightarrow> nat list" where
  "put_locks (Ring q) = []"
| "put_locks (Deco k s w) =
     (case k of RQ_BlockWriteDecorator \<Rightarrow> [sy_m_mutex s] | RQ_BlockWriteTimedDecorator t \<Rightarrow> [sy_m_mutex s]
      | _ \<Rightarrow> []) @ put_locks w"

fun get_locks :: "queue_obj \<Rightarrow> nat list" where
  "get_locks (Ring q) = []"
| "get_locks (Deco k s w) =
     (case k of RQ_BlockReadDecorator \<Rightarrow> [sy_m_mutex s] | RQ_BlockReadTimedDecorator t \<Rightarrow> [sy_m_mutex s]
      | _ \<Rightarrow> []) @ get_locks w"

primrec classes :: "queue_obj \<Rightarrow> deco_class list" where
  "classes (Ring q) = []"
| "classes (Deco k s w) = k # classes w"

lemma with_core_kept [simp]:
  "put_locks (with_core w q) = put_locks w" "get_locks (with_core w q) = get_locks w"
  "classes (with_core w q) = classes w"
  by (induction w) simp_all

text \<open>
  A call through decorators that cannot block, and that locks each mutex at most once, is the call on
  the ring.
\<close>

lemma deco_put_delegates:
  assumes "\<not> list_ex put_blocks (classes w)" and "distinct (put_locks w @ held)"
  shows "deco_put held w buf n =
    rbind (RingQueue_put (core w) buf n) (\<lambda>(r, q'). Inr (r, with_core w q'))"
  using assms
proof (induction w arbitrary: held)
  case (Ring q)
  then show ?case by simp
next
  case (Deco k s w)
  let ?held = "case k of RQ_BlockWriteTimedDecorator t \<Rightarrow> sy_m_mutex s # held | _ \<Rightarrow> held"
  have "distinct (put_locks w @ ?held)"
    using Deco.prems by (auto split: deco_class.splits)
  then have *: "deco_put ?held w buf n =
      rbind (RingQueue_put (core w) buf n) (\<lambda>(r, q'). Inr (r, with_core w q'))"
    using Deco.prems(1) by (intro Deco.IH) simp_all
  have "deco_put held (Deco k s w) buf n =
      rbind (deco_put ?held w buf n) (\<lambda>(r, w'). Inr (r, Deco k s w'))"
    using Deco.prems
    by (cases k) (simp_all add: op_defs)
  then show ?case
    by (simp add: * rbind_assoc split_def)
qed

lemma deco_get_delegates:
  assumes "\<not> list_ex get_blocks (classes w)" and "distinct (get_locks w @ held)"
  shows "deco_get held w out n =
    rbind (RingQueue_get (core w) out n) (\<lambda>(r, out', q'). Inr (r, out', with_core w q'))"
  using assms
proof (induction w arbitrary: held)
  case (Ring q)
  then show ?case by simp
next
  case (Deco k s w)
  let ?held = "case k of RQ_BlockReadTimedDecorator t \<Rightarrow> sy_m_mutex s # held | _ \<Rightarrow> held"
  have "distinct (get_locks w @ ?held)"
    using Deco.prems by (auto split: deco_class.splits)
  then have *: "deco_get ?held w out n =
      rbind (RingQueue_get (core w) out n) (\<lambda>(r, out', q'). Inr (r, out', with_core w q'))"
    using Deco.prems(1) by (intro Deco.IH) simp_all
  have "deco_get held (Deco k s w) out n =
      rbind (deco_get ?held w out n) (\<lambda>(r, out', w'). Inr (r, out', Deco k s w'))"
    using Deco.prems
    by (cases k) (simp_all add: op_defs)
  then show ?case
    by (simp add: * rbind_assoc split_def)
qed

lemma deco_peek_delegates:
  assumes "\<not> list_ex get_blocks (classes w)" and "distinct (get_locks w @ held)"
  shows "deco_peek held w out n =
    rbind (RingQueue_peek (core w) out n) (\<lambda>(r, out', q'). Inr (r, out', with_core w q'))"
  using assms
proof (induction w arbitrary: held)
  case (Ring q)
  then show ?case by simp
next
  case (Deco k s w)
  let ?held = "case k of RQ_BlockReadTimedDecorator t \<Rightarrow> sy_m_mutex s # held | _ \<Rightarrow> held"
  have "distinct (get_locks w @ ?held)"
    using Deco.prems by (auto split: deco_class.splits)
  then have *: "deco_peek ?held w out n =
      rbind (RingQueue_peek (core w) out n) (\<lambda>(r, out', q'). Inr (r, out', with_core w q'))"
    using Deco.prems(1) by (intro Deco.IH) simp_all
  have "deco_peek held (Deco k s w) out n =
      rbind (deco_peek ?held w out n) (\<lambda>(r, out', w'). Inr (r, out', Deco k s w'))"
    using Deco.prems
    by (cases k) (simp_all add: op_defs)
  then show ?case
    by (simp add: * rbind_assoc split_def)
qed

subsection \<open>The decorated queue provides the queue interface\<close>

definition deco_inv :: "queue_obj \<Rightarrow> bool" where
  "deco_inv w \<longleftrightarrow> rq_inv (core w)
     \<and> \<not> list_ex put_blocks (classes w) \<and> \<not> list_ex get_blocks (classes w)
     \<and> distinct (put_locks w) \<and> distinct (get_locks w)"

definition deco_cont :: "queue_obj \<Rightarrow> bytes list" where
  "deco_cont w = rq_cont (core w)"

definition deco_cap :: "queue_obj \<Rightarrow> nat" where
  "deco_cap w = rq_cap (core w)"

definition deco_impl :: "queue_obj fifo_impl" where
  "deco_impl =
     \<lparr>im_put = deco_put [], im_get = deco_get [], im_peek = deco_peek [],
      im_status = deco_get_status, im_size = deco_size\<rparr>"

lemma deco_inv_delegates:
  assumes "deco_inv w"
  shows "deco_put [] w buf n = rbind (RingQueue_put (core w) buf n) (\<lambda>(r, q'). Inr (r, with_core w q'))"
    "deco_get [] w out n = rbind (RingQueue_get (core w) out n) (\<lambda>(r, out', q'). Inr (r, out', with_core w q'))"
    "deco_peek [] w out n = rbind (RingQueue_peek (core w) out n) (\<lambda>(r, out', q'). Inr (r, out', with_core w q'))"
  using assms by (simp_all add: deco_inv_def deco_put_delegates deco_get_delegates deco_peek_delegates)

lemma deco_inv_with_core: "deco_inv w \<Longrightarrow> rq_inv q \<Longrightarrow> deco_inv (with_core w q)"
  by (simp add: deco_inv_def)

lemma deco_status_with_core [simp]: "deco_get_status (with_core w q) = qb_m_status q"
  by (simp add: deco_accessors_core op_defs)

lemma deco_put_refines:
  assumes "deco_inv w" and "unat n \<le> length buf"
  shows "\<exists>r w'. deco_put [] w buf n = Inr (r, w') \<and> deco_inv w' \<and> deco_cap w' = deco_cap w
    \<and> (r, deco_get_status w', deco_cont w') = fifo_put (deco_cap w) (deco_cont w) buf n"
proof -
  from assms(1) have "rq_inv (core w)" by (simp add: deco_inv_def)
  from RingQueue_put_refines [OF this assms(2)] obtain r q' where
    "RingQueue_put (core w) buf n = Inr (r, q')" "rq_inv q'" "rq_cap q' = rq_cap (core w)"
    "(r, qb_m_status q', rq_cont q') = fifo_put (rq_cap (core w)) (rq_cont (core w)) buf n" by blast
  then show ?thesis
    using deco_inv_delegates(1) [OF assms(1)] deco_inv_with_core [OF assms(1)]
    by (intro exI [of _ r] exI [of _ "with_core w q'"]) (simp add: deco_cont_def deco_cap_def)
qed

lemma deco_get_refines:
  assumes "deco_inv w" and "unat n \<le> length out"
  shows "\<exists>r out' w'. deco_get [] w out n = Inr (r, out', w') \<and> deco_inv w' \<and> deco_cap w' = deco_cap w
    \<and> (r, out', deco_get_status w', deco_cont w') = fifo_get (deco_cont w) out n"
proof -
  from assms(1) have "rq_inv (core w)" by (simp add: deco_inv_def)
  from RingQueue_get_refines [OF this assms(2)] obtain r out' q' where
    "RingQueue_get (core w) out n = Inr (r, out', q')" "rq_inv q'" "rq_cap q' = rq_cap (core w)"
    "(r, out', qb_m_status q', rq_cont q') = fifo_get (rq_cont (core w)) out n" by blast
  then show ?thesis
    using deco_inv_delegates(2) [OF assms(1)] deco_inv_with_core [OF assms(1)]
    by (intro exI [of _ r] exI [of _ out'] exI [of _ "with_core w q'"])
      (simp add: deco_cont_def deco_cap_def)
qed

lemma deco_peek_refines:
  assumes "deco_inv w" and "unat n \<le> length out"
  shows "\<exists>r out' w'. deco_peek [] w out n = Inr (r, out', w') \<and> deco_inv w' \<and> deco_cap w' = deco_cap w
    \<and> deco_cont w' = deco_cont w \<and> (r, out', deco_get_status w') = fifo_peek (deco_cont w) out n"
proof -
  from assms(1) have "rq_inv (core w)" by (simp add: deco_inv_def)
  from RingQueue_peek_refines [OF this assms(2)] obtain r out' q' where
    "RingQueue_peek (core w) out n = Inr (r, out', q')" "rq_inv q'" "rq_cap q' = rq_cap (core w)"
    "rq_cont q' = rq_cont (core w)"
    "(r, out', qb_m_status q') = fifo_peek (rq_cont (core w)) out n" by blast
  then show ?thesis
    using deco_inv_delegates(3) [OF assms(1)] deco_inv_with_core [OF assms(1)]
    by (intro exI [of _ r] exI [of _ out'] exI [of _ "with_core w q'"])
      (simp add: deco_cont_def deco_cap_def)
qed

interpretation dq: bounded_fifo deco_impl deco_inv deco_cont deco_cap
proof
  fix w :: queue_obj
  assume "deco_inv w"
  then have "rq_inv (core w)" by (simp add: deco_inv_def)
  then show "length (deco_cont w) \<le> deco_cap w" "item_bound (deco_cont w)"
    "unat (im_size deco_impl w) = length (deco_cont w)"
    using rq.bound_law rq.item_law rq.size_law
    by (simp_all add: deco_cont_def deco_cap_def deco_impl_def deco_accessors_core)
qed (use deco_put_refines deco_get_refines deco_peek_refines in \<open>simp_all add: deco_impl_def\<close>)

subsection \<open>Built chains\<close>

text \<open>The classes whose \<open>put\<close>, or \<open>get\<close> and \<open>peek\<close>, lock the mutex.\<close>

fun locks_on_put :: "deco_class \<Rightarrow> bool" where
  "locks_on_put RQ_BlockWriteDecorator = True"
| "locks_on_put (RQ_BlockWriteTimedDecorator t) = True"
| "locks_on_put _ = False"

fun locks_on_get :: "deco_class \<Rightarrow> bool" where
  "locks_on_get RQ_BlockReadDecorator = True"
| "locks_on_get (RQ_BlockReadTimedDecorator t) = True"
| "locks_on_get _ = False"

lemma deco_set_syncs_kept [simp]:
  "classes (deco_set_syncs w s) = classes w" "core (deco_set_syncs w s) = core w"
  by (cases w; simp)+

lemma deco_build_classes:
  "deco_build ks w next = (w', next') \<Longrightarrow> classes w' = rev ks @ classes w \<and> core w' = core w"
  by (induction ks arbitrary: w "next") (auto simp: deco_ctor_def Let_def)

lemma length_locks:
  "length (put_locks w) = length (filter locks_on_put (classes w))"
  "length (get_locks w) = length (filter locks_on_get (classes w))"
  by (induction w; simp split: deco_class.splits)+

lemma distinct_short: "length xs \<le> Suc 0 \<Longrightarrow> distinct xs"
  by (cases xs) auto

lemma deco_build_inv:
  assumes "\<not> list_ex put_blocks ks" and "\<not> list_ex get_blocks ks"
    and "length (filter locks_on_put ks) \<le> 1" and "length (filter locks_on_get ks) \<le> 1"
  shows "deco_inv (fst (deco_build ks (Ring (RingQueue_ctor c s)) next))"
proof -
  obtain w next' where w: "deco_build ks (Ring (RingQueue_ctor c s)) next = (w, next')"
    by fastforce
  have "classes w = rev ks" "core w = RingQueue_ctor c s"
    using deco_build_classes [OF w] by simp_all
  with assms show ?thesis
    by (auto simp: w deco_inv_def RingQueue_ctor_fresh list_ex_iff length_locks rev_filter [symmetric]
        intro!: distinct_short)
qed

lemma put_blocked:
  assumes "RingQueue_capacity (core w) = 0" and "list_ex put_blocks (classes w)"
    and "distinct (put_locks w @ held)"
  shows "deco_put held w buf n = Inl Blocked"
  using assms
proof (induction w arbitrary: held)
  case (Ring q)
  then show ?case by simp
next
  case (Deco k s w)
  then show ?case
    by (cases k) (auto simp: op_defs wait_function_put_def deco_accessors_core)
qed

subsection \<open>Properties\<close>

text \<open>
  C7. A queue decorated with any stack of non-blocking and timed decorators, at most one of them
  locking on \<open>put\<close> and at most one locking on \<open>get\<close>, behaves for a thread that runs alone as the
  bounded FIFO of the ring inside: every return value, output buffer and status of every call, and
  no call deadlocks. The queue \<open>AbstractSubprocess\<close> writes to its source is such a stack.
\<close>

theorem decorated_queue_is_bounded_fifo:
  assumes "\<not> list_ex put_blocks ks" and "\<not> list_ex get_blocks ks"
    and "length (filter locks_on_put ks) \<le> 1" and "length (filter locks_on_get ks) \<le> 1"
    and "deco_build ks (Ring (RingQueue_ctor c s)) 0 = (w, next)" and "list_all fifo_op_ok ps"
  shows "\<exists>bs w'. fifo_run deco_impl w ps = Inr (bs, w') \<and> spec_run (unat c) [] ps = (bs, deco_cont w')"
proof -
  have "deco_inv w" using deco_build_inv [OF assms(1-4), of c s 0] assms(5) by simp
  moreover have "deco_cap w = unat c" "deco_cont w = []"
    using deco_build_classes [OF assms(5)] by (simp_all add: deco_cap_def deco_cont_def RingQueue_ctor_fresh)
  ultimately show ?thesis using dq.run_simulates [of w ps] assms(6) by auto
qed

theorem decorated_queue_is_bounded_fifo_witness:
  "\<exists>bs w'. fifo_run deco_impl
      (fst (deco_build [RQ_BlockWriteTimedDecorator 1000, RQ_NoBlockReadDecorator] (Ring (RingQueue_ctor 1 8)) 0))
      [Put [1] 1, Put [2] 1, Get [0] 1] = Inr (bs, w') \<and> map obs_ret bs = [1, 0, 1]"
proof -
  let ?ks = "[RQ_BlockWriteTimedDecorator 1000, RQ_NoBlockReadDecorator]"
  let ?w = "fst (deco_build ?ks (Ring (RingQueue_ctor 1 8)) 0)"
  obtain m where w: "deco_build ?ks (Ring (RingQueue_ctor 1 8)) 0 = (?w, m)"
    by (metis prod.collapse)
  have "\<exists>bs w'. fifo_run deco_impl ?w [Put [1] 1, Put [2] 1, Get [0] 1] = Inr (bs, w') \<and>
      spec_run (unat (1 :: u32)) [] [Put [1] 1, Put [2] 1, Get [0] 1] = (bs, deco_cont w')"
    by (rule decorated_queue_is_bounded_fifo [OF _ _ _ _ w]) simp_all
  then show ?thesis by (auto simp: fifo_put_def)
qed

text \<open>
  A \<open>put\<close> through a blocking write decorator never returns, however many cells the ring has and
  however empty it is: the wait compares the size with the inherited \<open>capacity()\<close>, which is 0.
  \<open>AbstractSubprocess\<close> builds its reading queue with this decorator.
\<close>

theorem BlockWrite_put_never_returns:
  assumes "fifo_run RingQueue_impl (RingQueue_ctor c s) ps = Inr (bs, core w)"
    and "list_ex put_blocks (classes w)" and "distinct (put_locks w)"
  shows "deco_put [] w buf n = Inl Blocked"
  using put_blocked [OF _ assms(2), of "[]"] fifo_run_shadowed [OF assms(1)] assms(3)
  by (simp add: op_defs)

theorem BlockWrite_put_never_returns_witness:
  "deco_put [] (fst (deco_build [RQ_BlockWriteDecorator, RQ_NoBlockReadDecorator]
      (Ring (RingQueue_ctor 128 65535)) 0)) [1, 2] 2 = Inl Blocked"
  by (rule BlockWrite_put_never_returns [of 128 65535 "[]" "[]"])
    (simp_all add: deco_ctor_def Let_def)

text \<open>
  A timed \<open>put\<close> waits for its whole timeout on every call that nobody interrupts, however empty
  the ring is, for the same reason; only then does it store its item.
\<close>

theorem timed_put_always_waits:
  assumes "fifo_run RingQueue_impl (RingQueue_ctor c s) ps = Inr (bs, core w)"
  shows "wait_function_put_timed w t = Inr t"
  using fifo_run_shadowed [OF assms]
  by (simp add: wait_function_put_timed_def deco_accessors_core op_defs)

theorem timed_put_always_waits_witness:
  "wait_function_put_timed (Ring (RingQueue_ctor 128 65535)) 1000 = Inr 1000"
  by (rule timed_put_always_waits [of 128 65535 "[]" "[]"]) simp

text \<open>
  A blocking \<open>get\<close> on a consistent ring never reports an empty queue: with something stored it
  delivers the oldest item exactly as the ring does, and with nothing stored it does not return.
\<close>

theorem BlockRead_get_never_empty:
  assumes "rq_inv (core w)" and "unat n \<le> length out"
    and "\<not> list_ex get_blocks (classes w)" and "distinct (sy_m_mutex s # get_locks w)"
  shows "deco_get [] (Deco RQ_BlockReadDecorator s w) out n =
    (case rq_cont (core w) of
       [] \<Rightarrow> Inl Blocked
     | d # ds \<Rightarrow> rbind (RingQueue_get (core w) out n) (\<lambda>(r, out', q').
         Inr (r, out', with_core (Deco RQ_BlockReadDecorator s w) q')))
   \<and> (\<forall>r out' w'. deco_get [] (Deco RQ_BlockReadDecorator s w) out n = Inr (r, out', w')
        \<longrightarrow> deco_get_status w' = STATUS_QUEUEBASE_OK \<and> rq_cont (core w) \<noteq> [])"
proof (cases "rq_cont (core w)")
  case Nil
  then have "qb_m_size (core w) = 0" using length_rq_cont [of "core w"] by (simp add: unat_eq_zero)
  then show ?thesis
    using Nil by (simp add: wait_function_get_def deco_accessors_core op_defs)
next
  case (Cons d ds)
  have "qb_m_size (core w) \<noteq> 0"
    using rq_cont_pos [OF Cons] by (simp add: size_nonzero)
  then have "deco_get [] (Deco RQ_BlockReadDecorator s w) out n =
      rbind (RingQueue_get (core w) out n) (\<lambda>(r, out', q').
         Inr (r, out', with_core (Deco RQ_BlockReadDecorator s w) q'))"
    using assms(3,4)
    by (simp add: wait_function_get_def deco_accessors_core op_defs deco_get_delegates
        rbind_assoc split_def)
  then show ?thesis
    using Cons RingQueue_some(2) [OF assms(1) Cons assms(2)] by (auto simp: rq_popped_simps)
qed

theorem BlockRead_get_never_empty_witness:
  "deco_get [] (Deco RQ_BlockReadDecorator \<lparr>sy_m_mutex = 0, sy_m_condition_full = 1, sy_m_condition_empty = 2\<rparr>
      (Ring (RingQueue_ctor 3 8))) [0] 1 = Inl Blocked"
  using BlockRead_get_never_empty [of "Ring (RingQueue_ctor 3 8)" 1 "[0]"
      "\<lparr>sy_m_mutex = 0, sy_m_condition_full = 1, sy_m_condition_empty = 2\<rparr>"]
  by (simp add: RingQueue_ctor_fresh)

text \<open>
  Synchronisation objects reach one level down only: a new decorator shares its mutex and
  condition variables with the decorator it wraps, and a decorator below that keeps the ones it had,
  so in a stack of three the innermost decorator locks another mutex than the other two.
\<close>

theorem syncs_reach_one_level:
  assumes "sy_m_mutex s1 < next" and "sy_m_condition_full s1 < next" and "sy_m_condition_empty s1 < next"
  shows "\<exists>s. deco_ctor k3 (Deco k2 s2 (Deco k1 s1 w)) next = (Deco k3 s (Deco k2 s (Deco k1 s1 w)), next + 3)
    \<and> sy_m_mutex s \<noteq> sy_m_mutex s1 \<and> sy_m_condition_full s \<noteq> sy_m_condition_full s1
    \<and> sy_m_condition_empty s \<noteq> sy_m_condition_empty s1"
  using assms by (simp add: deco_ctor_def Let_def)

theorem syncs_reach_one_level_witness:
  "\<exists>s s1. deco_build [RQ_BlockWriteDecorator, RQ_NoBlockReadDecorator, RQ_BlockReadDecorator] (Ring RingQueue_default) 0
     = (Deco RQ_BlockReadDecorator s (Deco RQ_NoBlockReadDecorator s (Deco RQ_BlockWriteDecorator s1 (Ring RingQueue_default))), 9)
   \<and> sy_m_mutex s \<noteq> sy_m_mutex s1"
  using syncs_reach_one_level [of "\<lparr>sy_m_mutex = 3, sy_m_condition_full = 4, sy_m_condition_empty = 5\<rparr>" 6
      RQ_BlockReadDecorator RQ_NoBlockReadDecorator
      "\<lparr>sy_m_mutex = 3, sy_m_condition_full = 4, sy_m_condition_empty = 5\<rparr>" RQ_BlockWriteDecorator "Ring RingQueue_default"]
  by (auto simp: deco_ctor_def Let_def)

text \<open>
  Because a decorator and the one it wraps share a mutex, wrapping a decorator that locks on
  \<open>put\<close> in another one that locks on \<open>put\<close> and does not block first makes every \<open>put\<close> lock a mutex
  its own thread holds; the same goes for \<open>get\<close>.
\<close>

theorem nested_locking_self_deadlocks:
  assumes "locks_on_put k1"
  shows "deco_put [] (fst (deco_ctor (RQ_BlockWriteTimedDecorator t) (Deco k1 s1 w) next)) buf n
    = Inl Self_Deadlock
   \<and> (locks_on_get k2 \<longrightarrow>
      deco_get [] (fst (deco_ctor (RQ_BlockReadTimedDecorator t) (Deco k2 s1 w) next)) out n = Inl Self_Deadlock)"
  using assms
  by (cases k1; cases k2)
    (simp_all add: deco_ctor_def Let_def op_defs)

theorem nested_locking_self_deadlocks_witness:
  "deco_put [] (fst (deco_build [RQ_BlockWriteTimedDecorator 5, RQ_BlockWriteTimedDecorator 9]
      (Ring RingQueue_default) 0)) [1] 1 = Inl Self_Deadlock"
  using nested_locking_self_deadlocks [of "RQ_BlockWriteTimedDecorator 5" 9
      "\<lparr>sy_m_mutex = 0, sy_m_condition_full = 1, sy_m_condition_empty = 2\<rparr>" "Ring RingQueue_default" 3 "[1]" 1]
  by (simp add: deco_ctor_def Let_def)

end
