(* ===== verification/Blocking_Machine.thy ===== *)
theory Blocking_Machine
  imports Queue_Decorators
begin

text \<open>
  \<open>containers/RingQueueBlockDecorators.cpp\<close> with several threads: mutexes, condition variables and
  wait sets.

  A call on a decorated queue is the list of atomic actions it still has to perform, laid out by
  \<open>op_code\<close> from the bodies of the overriding methods, outermost decorator first. A machine is the ring
  inside the chain, the owner of each mutex, the threads, and the log of the calls that reached the
  ring. \<open>machine_step\<close> performs one action of one thread, chosen by a scheduler; a sleeping thread wakes
  up when it is notified, by its timeout, or spuriously, as the standard library allows.

  Calls of the ring itself are single actions. That is faithful exactly when no two threads are about
  to touch the ring at the same time, which \<open>locked_queue_excludes\<close> proves for chains that lock on both
  sides and \<open>unlocked_get_races\<close> refutes for the chains \<open>AbstractSubprocess\<close> builds.
\<close>

subsection \<open>The actions of a call\<close>

text \<open>
  The first number of a wait is the condition variable, the second the mutex of the \<open>unique_lock\<close>.
  \<open>I_Sleep\<close> is the call of \<open>wait\<close> or \<open>wait_for\<close> itself, after the test.
\<close>

datatype instr =
  I_Lock nat | I_Unlock nat
  | I_While_Full nat nat | I_While_Empty nat nat | I_If_Full nat nat | I_If_Empty nat nat
  | I_Sleep nat nat | I_Ring fifo_op | I_Notify nat

text \<open>
  The bodies of the overriding methods, around the code \<open>call\<close> of the same method of the wrappee. The
  \<open>unique_lock\<close> is released when the body is left.
\<close>

definition RQ_BlockWriteDecorator_put_code :: "syncs \<Rightarrow> instr list \<Rightarrow> instr list" where
  "RQ_BlockWriteDecorator_put_code s call =
     [I_Lock (sy_m_mutex s), I_While_Full (sy_m_condition_full s) (sy_m_mutex s)] @ call
     @ [I_Notify (sy_m_condition_empty s), I_Unlock (sy_m_mutex s)]"

definition RQ_BlockReadDecorator_get_code :: "syncs \<Rightarrow> instr list \<Rightarrow> instr list" where
  "RQ_BlockReadDecorator_get_code s call =
     [I_Lock (sy_m_mutex s), I_While_Empty (sy_m_condition_empty s) (sy_m_mutex s)] @ call
     @ [I_Notify (sy_m_condition_full s), I_Unlock (sy_m_mutex s)]"

definition RQ_BlockReadDecorator_peek_code :: "syncs \<Rightarrow> instr list \<Rightarrow> instr list" where
  "RQ_BlockReadDecorator_peek_code s call =
     [I_Lock (sy_m_mutex s), I_While_Empty (sy_m_condition_empty s) (sy_m_mutex s)] @ call
     @ [I_Unlock (sy_m_mutex s)]"

definition RQ_BlockWriteTimedDecorator_put_code :: "syncs \<Rightarrow> instr list \<Rightarrow> instr list" where
  "RQ_BlockWriteTimedDecorator_put_code s call =
     [I_Lock (sy_m_mutex s), I_If_Full (sy_m_condition_full s) (sy_m_mutex s)] @ call
     @ [I_Notify (sy_m_condition_empty s), I_Unlock (sy_m_mutex s)]"

definition RQ_BlockReadTimedDecorator_get_code :: "syncs \<Rightarrow> instr list \<Rightarrow> instr list" where
  "RQ_BlockReadTimedDecorator_get_code s call =
     [I_Lock (sy_m_mutex s), I_If_Empty (sy_m_condition_empty s) (sy_m_mutex s)] @ call
     @ [I_Notify (sy_m_condition_full s), I_Unlock (sy_m_mutex s)]"

definition RQ_BlockReadTimedDecorator_peek_code :: "syncs \<Rightarrow> instr list \<Rightarrow> instr list" where
  "RQ_BlockReadTimedDecorator_peek_code s call =
     [I_Lock (sy_m_mutex s), I_If_Empty (sy_m_condition_empty s) (sy_m_mutex s)] @ call
     @ [I_Unlock (sy_m_mutex s)]"

definition RQ_NoBlockWriteDecorator_put_code :: "syncs \<Rightarrow> instr list \<Rightarrow> instr list" where
  "RQ_NoBlockWriteDecorator_put_code s call = call @ [I_Notify (sy_m_condition_empty s)]"

definition RQ_NoBlockReadDecorator_get_code :: "syncs \<Rightarrow> instr list \<Rightarrow> instr list" where
  "RQ_NoBlockReadDecorator_get_code s call = call @ [I_Notify (sy_m_condition_full s)]"

lemmas code_defs [simp] =
  RQ_BlockWriteDecorator_put_code_def RQ_BlockReadDecorator_get_code_def
  RQ_BlockReadDecorator_peek_code_def RQ_BlockWriteTimedDecorator_put_code_def
  RQ_BlockReadTimedDecorator_get_code_def RQ_BlockReadTimedDecorator_peek_code_def
  RQ_NoBlockWriteDecorator_put_code_def RQ_NoBlockReadDecorator_get_code_def

text \<open>A class that does not override a method passes the call on.\<close>

fun method_code :: "deco_class \<Rightarrow> syncs \<Rightarrow> fifo_op \<Rightarrow> instr list \<Rightarrow> instr list" where
  "method_code RQ_BlockWriteDecorator s (Put buf n) call = RQ_BlockWriteDecorator_put_code s call"
| "method_code RQ_BlockReadDecorator s (Get out n) call = RQ_BlockReadDecorator_get_code s call"
| "method_code RQ_BlockReadDecorator s (Peek out n) call = RQ_BlockReadDecorator_peek_code s call"
| "method_code (RQ_BlockWriteTimedDecorator t) s (Put buf n) call = RQ_BlockWriteTimedDecorator_put_code s call"
| "method_code (RQ_BlockReadTimedDecorator t) s (Get out n) call = RQ_BlockReadTimedDecorator_get_code s call"
| "method_code (RQ_BlockReadTimedDecorator t) s (Peek out n) call = RQ_BlockReadTimedDecorator_peek_code s call"
| "method_code RQ_NoBlockWriteDecorator s (Put buf n) call = RQ_NoBlockWriteDecorator_put_code s call"
| "method_code RQ_NoBlockReadDecorator s (Get out n) call = RQ_NoBlockReadDecorator_get_code s call"
| "method_code k s p call = call"

primrec op_code :: "queue_obj \<Rightarrow> fifo_op \<Rightarrow> instr list" where
  "op_code (Ring q) p = [I_Ring p]"
| "op_code (Deco k s w) p = method_code k s p (op_code w p)"

subsection \<open>Threads and machines\<close>

text \<open>\<open>th_waits\<close> is the condition variable the thread sleeps on.\<close>

record thread =
  th_code :: "instr list"
  th_waits :: "nat option"

record machine =
  mc_ring :: ring_queue
  mc_owner :: "nat \<Rightarrow> nat option"
  mc_threads :: "thread list"
  mc_log :: "(nat \<times> fifo_op \<times> fifo_obs) list"

definition machine_init :: "queue_obj \<Rightarrow> nat \<Rightarrow> machine" where
  "machine_init w n =
     \<lparr>mc_ring = core w, mc_owner = (\<lambda>m. None),
      mc_threads = replicate n \<lparr>th_code = [], th_waits = None\<rparr>, mc_log = []\<rparr>"

abbreviation code_of :: "machine \<Rightarrow> nat \<Rightarrow> instr list" where
  "code_of s t \<equiv> th_code (mc_threads s ! t)"

abbreviation waits_of :: "machine \<Rightarrow> nat \<Rightarrow> nat option" where
  "waits_of s t \<equiv> th_waits (mc_threads s ! t)"

definition set_thread :: "machine \<Rightarrow> nat \<Rightarrow> instr list \<Rightarrow> nat option \<Rightarrow> machine" where
  "set_thread s t c v = s\<lparr>mc_threads := (mc_threads s)[t := \<lparr>th_code = c, th_waits = v\<rparr>]\<rparr>"

text \<open>
  One action of thread \<open>t\<close>, whose remaining code is the action and then \<open>c\<close>. Locking a mutex that is
  taken is not a step, also when the thread owns it itself. The tests read \<open>size()\<close> and \<open>capacity()\<close> of the wrappee.
\<close>

definition ring_full :: "machine \<Rightarrow> bool" where
  "ring_full s \<longleftrightarrow> RingQueue_size (mc_ring s) \<ge> RingQueue_capacity (mc_ring s)"

definition ring_empty :: "machine \<Rightarrow> bool" where
  "ring_empty s \<longleftrightarrow> RingQueue_size (mc_ring s) \<le> 0"

fun exec_instr :: "nat \<Rightarrow> instr \<Rightarrow> instr list \<Rightarrow> machine \<Rightarrow> machine option" where
  "exec_instr t (I_Lock m) c s =
     (if mc_owner s m = None
      then Some (set_thread (s\<lparr>mc_owner := (mc_owner s)(m := Some t)\<rparr>) t c None) else None)"
| "exec_instr t (I_Unlock m) c s = Some (set_thread (s\<lparr>mc_owner := (mc_owner s)(m := None)\<rparr>) t c None)"
| "exec_instr t (I_While_Full v m) c s =
     Some (set_thread s t (if ring_full s then I_Sleep v m # I_While_Full v m # c else c) None)"
| "exec_instr t (I_While_Empty v m) c s =
     Some (set_thread s t (if ring_empty s then I_Sleep v m # I_While_Empty v m # c else c) None)"
| "exec_instr t (I_If_Full v m) c s =
     Some (set_thread s t (if ring_full s then I_Sleep v m # c else c) None)"
| "exec_instr t (I_If_Empty v m) c s =
     Some (set_thread s t (if ring_empty s then I_Sleep v m # c else c) None)"
| "exec_instr t (I_Sleep v m) c s =
     Some (set_thread (s\<lparr>mc_owner := (mc_owner s)(m := None)\<rparr>) t (I_Lock m # c) (Some v))"
| "exec_instr t (I_Ring p) c s =
     (case fifo_step RingQueue_impl (mc_ring s) p of
        Inl e \<Rightarrow> None
      | Inr (b, q) \<Rightarrow> Some (set_thread (s\<lparr>mc_ring := q, mc_log := mc_log s @ [(t, p, b)]\<rparr>) t c None))"
| "exec_instr t (I_Notify v) c s =
     (if list_ex (\<lambda>th. th_waits th = Some v) (mc_threads s) then None else Some (set_thread s t c None))"

text \<open>
  The scheduler starts a call in an idle thread, runs a thread that is not asleep, wakes a sleeping
  thread up, or has a \<open>notify_one\<close> of thread \<open>t\<close> wake thread \<open>u\<close>; a \<open>notify_one\<close> that finds nobody asleep is
  lost.
\<close>

datatype choice = Call nat fifo_op | Run nat | Wake nat | Wake_One nat nat

fun machine_step :: "queue_obj \<Rightarrow> choice \<Rightarrow> machine \<Rightarrow> machine option" where
  "machine_step w (Call t p) s =
     (if t < length (mc_threads s) \<and> code_of s t = [] \<and> fifo_op_ok p
      then Some (set_thread s t (op_code w p) None) else None)"
| "machine_step w (Run t) s =
     (if t < length (mc_threads s) \<and> waits_of s t = None
      then (case code_of s t of [] \<Rightarrow> None | i # c \<Rightarrow> exec_instr t i c s) else None)"
| "machine_step w (Wake t) s =
     (if t < length (mc_threads s) \<and> waits_of s t \<noteq> None
      then Some (set_thread s t (code_of s t) None) else None)"
| "machine_step w (Wake_One t u) s =
     (if t < length (mc_threads s) \<and> u < length (mc_threads s) \<and> waits_of s t = None \<and> t \<noteq> u
      then (case code_of s t of
              I_Notify v # c \<Rightarrow>
                if waits_of s u = Some v then Some (set_thread (set_thread s t c None) u (code_of s u) None)
                else None
            | _ \<Rightarrow> None)
      else None)"

fun machine_run :: "queue_obj \<Rightarrow> choice list \<Rightarrow> machine \<Rightarrow> machine option" where
  "machine_run w [] s = Some s"
| "machine_run w (ch # chs) s =
     (case machine_step w ch s of None \<Rightarrow> None | Some s' \<Rightarrow> machine_run w chs s')"

text \<open>The states a scheduler can reach when thread \<open>t\<close> may only make the calls \<open>p\<close> with \<open>may t p\<close>.\<close>

fun permitted :: "(nat \<Rightarrow> fifo_op \<Rightarrow> bool) \<Rightarrow> choice \<Rightarrow> bool" where
  "permitted may (Call t p) = may t p"
| "permitted may ch = True"

inductive machine_reaches :: "queue_obj \<Rightarrow> (nat \<Rightarrow> fifo_op \<Rightarrow> bool) \<Rightarrow> machine \<Rightarrow> machine \<Rightarrow> bool"
  for w may s0 where
  mr_start: "machine_reaches w may s0 s0"
| mr_step: "machine_reaches w may s0 s \<Longrightarrow> permitted may ch \<Longrightarrow> machine_step w ch s = Some s' \<Longrightarrow>
    machine_reaches w may s0 s'"

abbreviation anyone :: "nat \<Rightarrow> fifo_op \<Rightarrow> bool" where
  "anyone \<equiv> \<lambda>t p. True"


lemma machine_run_reaches:
  assumes "machine_run w chs s = Some s'" and "list_all (permitted may) chs"
    and "machine_reaches w may s0 s"
  shows "machine_reaches w may s0 s'"
  using assms
  by (induction chs arbitrary: s) (auto split: option.splits intro: mr_step)

subsection \<open>Elimination of a step\<close>

lemma set_thread_simps [simp]:
  "mc_ring (set_thread s t c v) = mc_ring s" "mc_owner (set_thread s t c v) = mc_owner s"
  "mc_log (set_thread s t c v) = mc_log s"
  "length (mc_threads (set_thread s t c v)) = length (mc_threads s)"
  "ring_full (set_thread s t c v) = ring_full s" "ring_empty (set_thread s t c v) = ring_empty s"
  by (simp_all add: set_thread_def ring_full_def ring_empty_def)

lemma set_thread_nth [simp]:
  "u < length (mc_threads s) \<Longrightarrow> mc_threads (set_thread s t c v) ! u =
     (if u = t then \<lparr>th_code = c, th_waits = v\<rparr> else mc_threads s ! u)"
  by (auto simp: set_thread_def nth_list_update)

text \<open>The condition variable and mutex of a test, whether it is repeated, and whether it holds the thread back.\<close>

fun waits_in :: "instr \<Rightarrow> (nat \<times> nat) option" where
  "waits_in (I_While_Full v m) = Some (v, m)"
| "waits_in (I_While_Empty v m) = Some (v, m)"
| "waits_in (I_If_Full v m) = Some (v, m)"
| "waits_in (I_If_Empty v m) = Some (v, m)"
| "waits_in i = None"

fun again :: "instr \<Rightarrow> instr list" where
  "again (I_While_Full v m) = [I_While_Full v m]"
| "again (I_While_Empty v m) = [I_While_Empty v m]"
| "again i = []"

fun holds_back :: "machine \<Rightarrow> instr \<Rightarrow> bool" where
  "holds_back s (I_While_Full v m) = ring_full s"
| "holds_back s (I_If_Full v m) = ring_full s"
| "holds_back s (I_While_Empty v m) = ring_empty s"
| "holds_back s (I_If_Empty v m) = ring_empty s"
| "holds_back s i = False"

lemma machine_stepE:
  assumes "machine_step w ch s = Some s'"
  obtains
    (Call) t p where "ch = Call t p" "t < length (mc_threads s)" "code_of s t = []" "fifo_op_ok p"
      "s' = set_thread s t (op_code w p) None"
  | (Lock) t m c where "t < length (mc_threads s)" "waits_of s t = None" "code_of s t = I_Lock m # c"
      "mc_owner s m = None" "s' = set_thread (s\<lparr>mc_owner := (mc_owner s)(m := Some t)\<rparr>) t c None"
  | (Unlock) t m c where "t < length (mc_threads s)" "waits_of s t = None" "code_of s t = I_Unlock m # c"
      "s' = set_thread (s\<lparr>mc_owner := (mc_owner s)(m := None)\<rparr>) t c None"
  | (Pass) t i c v m where "t < length (mc_threads s)" "waits_of s t = None" "code_of s t = i # c"
      "waits_in i = Some (v, m)" "\<not> holds_back s i" "s' = set_thread s t c None"
  | (Loop) t i c v m where "t < length (mc_threads s)" "waits_of s t = None" "code_of s t = i # c"
      "waits_in i = Some (v, m)" "holds_back s i" "s' = set_thread s t (I_Sleep v m # again i @ c) None"
  | (Sleep) t v m c where "t < length (mc_threads s)" "waits_of s t = None" "code_of s t = I_Sleep v m # c"
      "s' = set_thread (s\<lparr>mc_owner := (mc_owner s)(m := None)\<rparr>) t (I_Lock m # c) (Some v)"
  | (Ring) t p c b q where "t < length (mc_threads s)" "waits_of s t = None" "code_of s t = I_Ring p # c"
      "fifo_step RingQueue_impl (mc_ring s) p = Inr (b, q)"
      "s' = set_thread (s\<lparr>mc_ring := q, mc_log := mc_log s @ [(t, p, b)]\<rparr>) t c None"
  | (Notify) t v c where "t < length (mc_threads s)" "waits_of s t = None" "code_of s t = I_Notify v # c"
      "\<forall>u < length (mc_threads s). waits_of s u \<noteq> Some v" "s' = set_thread s t c None"
  | (Wake) t where "t < length (mc_threads s)" "s' = set_thread s t (code_of s t) None"
  | (Wake_One) t u v c where "t < length (mc_threads s)" "u < length (mc_threads s)" "t \<noteq> u"
      "waits_of s t = None" "waits_of s u = Some v" "code_of s t = I_Notify v # c"
      "s' = set_thread (set_thread s t c None) u (code_of s u) None"
proof (cases ch)
  case (Call t p)
  then show ?thesis using assms that(1) by (auto split: if_splits)
next
  case (Run t)
  then obtain i c where i: "t < length (mc_threads s)" "waits_of s t = None" "code_of s t = i # c"
    "exec_instr t i c s = Some s'"
    using assms by (auto split: if_splits list.splits)
  show ?thesis
  proof (cases i)
    case (I_Lock m)
    with i that(2) show ?thesis by (auto split: if_splits)
  next
    case (I_Unlock m)
    with i that(3) show ?thesis by auto
  next
    case (I_While_Full v m)
    with i that(4,5) [of t i c v m] show ?thesis by (auto split: if_splits)
  next
    case (I_While_Empty v m)
    with i that(4,5) [of t i c v m] show ?thesis by (auto split: if_splits)
  next
    case (I_If_Full v m)
    with i that(4,5) [of t i c v m] show ?thesis by (auto split: if_splits)
  next
    case (I_If_Empty v m)
    with i that(4,5) [of t i c v m] show ?thesis by (auto split: if_splits)
  next
    case (I_Sleep v m)
    with i that(6) show ?thesis by auto
  next
    case (I_Ring p)
    with i that(7) show ?thesis by (auto split: sum.splits)
  next
    case (I_Notify v)
    with i have "\<not> list_ex (\<lambda>th. th_waits th = Some v) (mc_threads s)" "s' = set_thread s t c None"
      by (auto split: if_splits)
    with i I_Notify that(8) [of t v c] show ?thesis by (auto simp: list_ex_length)
  qed
next
  case (Wake t)
  then show ?thesis using assms that(9) by (auto split: if_splits)
next
  case (Wake_One t u)
  then show ?thesis using assms that(10) [of t u] by (auto split: if_splits list.splits instr.splits)
qed

subsection \<open>A typing of the remaining code\<close>

text \<open>
  \<open>lock_typed G H c\<close>: a thread that holds the mutexes \<open>H\<close> can run \<open>c\<close> without locking a mutex it
  holds, it unlocks and sleeps only on mutexes it holds, it touches the ring and goes to sleep only while
  it holds all of \<open>G\<close>, and at the end it holds nothing.
\<close>

fun lock_typed :: "nat set \<Rightarrow> nat set \<Rightarrow> instr list \<Rightarrow> bool" where
  "lock_typed G H [] \<longleftrightarrow> H = {}"
| "lock_typed G H (I_Lock m # c) \<longleftrightarrow> m \<notin> H \<and> lock_typed G (insert m H) c"
| "lock_typed G H (I_Unlock m # c) \<longleftrightarrow> m \<in> H \<and> lock_typed G (H - {m}) c"
| "lock_typed G H (I_While_Full v m # c) \<longleftrightarrow> m \<in> H \<and> G \<subseteq> H \<and> lock_typed G H c"
| "lock_typed G H (I_While_Empty v m # c) \<longleftrightarrow> m \<in> H \<and> G \<subseteq> H \<and> lock_typed G H c"
| "lock_typed G H (I_If_Full v m # c) \<longleftrightarrow> m \<in> H \<and> G \<subseteq> H \<and> lock_typed G H c"
| "lock_typed G H (I_If_Empty v m # c) \<longleftrightarrow> m \<in> H \<and> G \<subseteq> H \<and> lock_typed G H c"
| "lock_typed G H (I_Sleep v m # c) \<longleftrightarrow> m \<in> H \<and> G \<subseteq> H \<and> lock_typed G H c"
| "lock_typed G H (I_Ring p # c) \<longleftrightarrow> G \<subseteq> H \<and> lock_typed G H c"
| "lock_typed G H (I_Notify v # c) \<longleftrightarrow> lock_typed G H c"

lemma lock_typed_test:
  "waits_in i = Some (v, m) \<Longrightarrow> lock_typed G H (i # c) \<longleftrightarrow> m \<in> H \<and> G \<subseteq> H \<and> lock_typed G H c"
  "waits_in i = Some (v, m) \<Longrightarrow> lock_typed G H (i # c) \<Longrightarrow> lock_typed G H (I_Sleep v m # again i @ c)"
  by (cases i; simp)+

definition op_locks :: "queue_obj \<Rightarrow> fifo_op \<Rightarrow> nat list" where
  "op_locks w p = (case p of Put buf n \<Rightarrow> put_locks w | _ \<Rightarrow> get_locks w)"

lemma op_code_typed:
  assumes "distinct (op_locks w p)" and "set (op_locks w p) \<inter> H = {}"
    and "G \<subseteq> H \<union> set (take 1 (op_locks w p))" and "lock_typed G H c"
  shows "lock_typed G H (op_code w p @ c)"
  using assms
proof (induction w arbitrary: H c)
  case (Ring q)
  then show ?case by (simp add: op_locks_def split: fifo_op.splits)
next
  case (Deco k s w)
  show ?case
  proof (cases "if (\<exists>buf n. p = Put buf n) then locks_on_put k else locks_on_get k")
    case False
    then have *: "op_locks (Deco k s w) p = op_locks w p"
      by (cases k; cases p) (simp_all add: op_locks_def)
    then have IH: "lock_typed G H (op_code w p @ c')" if "lock_typed G H c'" for c'
      using Deco.IH Deco.prems that by simp
    show ?thesis
      using False IH Deco.prems(4) by (cases k; cases p) simp_all
  next
    case True
    let ?m = "sy_m_mutex s"
    have *: "op_locks (Deco k s w) p = ?m # op_locks w p"
      using True by (cases k; cases p) (simp_all add: op_locks_def)
    have m: "?m \<notin> H" "G \<subseteq> insert ?m H" using Deco.prems * by auto
    have IH: "lock_typed G (insert ?m H) (op_code w p @ c')" if "lock_typed G (insert ?m H) c'" for c'
      using Deco.IH [of "insert ?m H" c'] Deco.prems * that by auto
    have "lock_typed G (insert ?m H) (I_Notify v # I_Unlock ?m # c)"
      "lock_typed G (insert ?m H) (I_Unlock ?m # c)" for v
      using Deco.prems(4) m(1) by simp_all
    with True m IH show ?thesis by (cases k; cases p) auto
  qed
qed

definition held :: "machine \<Rightarrow> nat \<Rightarrow> nat set" where
  "held s t = {m. mc_owner s m = Some t}"

definition machine_typed :: "nat set \<Rightarrow> machine \<Rightarrow> bool" where
  "machine_typed G s \<longleftrightarrow> (\<forall>t < length (mc_threads s). lock_typed G (held s t) (code_of s t))"

lemma held_simps [simp]:
  "held (set_thread s t c v) u = held s u"
  "held (s\<lparr>mc_owner := (mc_owner s)(m := Some t)\<rparr>) u =
     (if u = t then insert m (held s u) else held s u - {m})"
  "held (s\<lparr>mc_owner := (mc_owner s)(m := None)\<rparr>) u = held s u - {m}"
  "held (s\<lparr>mc_ring := q, mc_log := l\<rparr>) u = held s u"
  by (auto simp: held_def)

lemma held_once: "m \<in> held s t \<Longrightarrow> m \<in> held s u \<Longrightarrow> t = u"
  by (simp add: held_def)

lemma machine_typedD: "machine_typed G s \<Longrightarrow> t < length (mc_threads s) \<Longrightarrow> lock_typed G (held s t) (code_of s t)"
  by (simp add: machine_typed_def)

lemma machine_step_typed:
  assumes "machine_step w ch s = Some s'" and "machine_typed G s" and "\<And>p. lock_typed G {} (op_code w p)"
  shows "machine_typed G s'"
  using assms(1)
proof (cases rule: machine_stepE)
  case (Call t p)
  then have "held s t = {}" using machine_typedD [OF assms(2), of t] by simp
  with Call show ?thesis using assms(2,3) by (auto simp: machine_typed_def)
next
  case (Lock t m c)
  then have "m \<notin> held s u" for u by (simp add: held_def)
  with Lock show ?thesis
    using machine_typedD [OF assms(2)] by (fastforce simp: machine_typed_def)
next
  case (Unlock t m c)
  then have t: "m \<in> held s t" "lock_typed G (held s t - {m}) c"
    using machine_typedD [OF assms(2), of t] by simp_all
  then have "held s u - {m} = held s u" if "u \<noteq> t" for u using that held_once by fastforce
  with Unlock t show ?thesis
    using machine_typedD [OF assms(2)] by (auto simp: machine_typed_def)
next
  case (Pass t i c v m)
  then have "lock_typed G (held s t) c"
    using machine_typedD [OF assms(2), of t] by (simp add: lock_typed_test(1))
  with Pass show ?thesis using assms(2) by (auto simp: machine_typed_def)
next
  case (Loop t i c v m)
  then have "lock_typed G (held s t) (I_Sleep v m # again i @ c)"
    using machine_typedD [OF assms(2), of t] lock_typed_test(2) by simp
  with Loop show ?thesis using assms(2) by (auto simp: machine_typed_def)
next
  case (Sleep t v m c)
  then have t: "m \<in> held s t" "lock_typed G (held s t) c"
    using machine_typedD [OF assms(2), of t] by simp_all
  then have "held s u - {m} = held s u" if "u \<noteq> t" for u using that held_once by fastforce
  moreover have "insert m (held s t) = held s t" using t(1) by blast
  ultimately show ?thesis
    using Sleep t machine_typedD [OF assms(2)] by (auto simp: machine_typed_def)
next
  case (Ring t p c b q)
  then show ?thesis using machine_typedD [OF assms(2)] by (fastforce simp: machine_typed_def)
next
  case (Notify t v c)
  then show ?thesis using machine_typedD [OF assms(2)] by (fastforce simp: machine_typed_def)
next
  case (Wake t)
  then show ?thesis using assms(2) by (auto simp: machine_typed_def)
next
  case (Wake_One t u v c)
  then show ?thesis using machine_typedD [OF assms(2)] by (fastforce simp: machine_typed_def)
qed

lemma machine_init_simps [simp]:
  "mc_ring (machine_init w n) = core w" "mc_log (machine_init w n) = []"
  "length (mc_threads (machine_init w n)) = n" "held (machine_init w n) t = {}"
  "t < n \<Longrightarrow> mc_threads (machine_init w n) ! t = \<lparr>th_code = [], th_waits = None\<rparr>"
  by (simp_all add: machine_init_def held_def)

lemma machine_reaches_typed:
  assumes "machine_reaches w may (machine_init w n) s" and "\<And>p. lock_typed G {} (op_code w p)"
  shows "machine_typed G s"
  using assms(1)
proof (induction rule: machine_reaches.induct)
  case mr_start
  then show ?case by (simp add: machine_typed_def)
next
  case (mr_step s ch s')
  then show ?case using machine_step_typed assms(2) by blast
qed

subsection \<open>The ring and the log\<close>

lemma spec_run_snoc:
  "spec_run cap xs (ps @ [p]) =
     (case spec_run cap xs ps of (bs, ys) \<Rightarrow> case spec_step cap ys p of (b, zs) \<Rightarrow> (bs @ [b], zs))"
  by (induction ps arbitrary: xs) (auto split: prod.splits)

fun ring_ops_ok :: "instr list \<Rightarrow> bool" where
  "ring_ops_ok c = (\<forall>p. I_Ring p \<in> set c \<longrightarrow> fifo_op_ok p)"

lemma op_code_ring: "I_Ring p' \<in> set (op_code w p) \<longleftrightarrow> p' = p"
proof (induction w)
  case (Ring q)
  then show ?case by simp
next
  case (Deco k s w)
  then show ?case by (cases k; cases p) simp_all
qed

definition log_ops :: "machine \<Rightarrow> fifo_op list" where
  "log_ops s = map (fst \<circ> snd) (mc_log s)"

definition log_obs :: "machine \<Rightarrow> fifo_obs list" where
  "log_obs s = map (snd \<circ> snd) (mc_log s)"

lemma log_init [simp]: "log_ops (machine_init w n) = []" "log_obs (machine_init w n) = []"
  by (simp_all add: log_ops_def log_obs_def)

text \<open>What the ring holds is what the abstract queue holds after the logged calls, in the order of the log.\<close>

definition ring_follows :: "nat \<Rightarrow> machine \<Rightarrow> bool" where
  "ring_follows cap s \<longleftrightarrow> rq_inv (mc_ring s) \<and> rq_cap (mc_ring s) = cap
     \<and> qb_m_total_count (mc_ring s) = 0
     \<and> spec_run cap [] (log_ops s) = (log_obs s, rq_cont (mc_ring s))
     \<and> (\<forall>t < length (mc_threads s). ring_ops_ok (code_of s t))"

text \<open>Apart from new calls, a step only shortens code, up to the sleep of a failed test and the lock after it.\<close>

lemma machine_step_code:
  assumes "machine_step w ch s = Some s'" and "u < length (mc_threads s)"
  shows "(\<exists>p. ch = Call u p \<and> code_of s u = [] \<and> fifo_op_ok p \<and> code_of s' u = op_code w p)
    \<or> (\<forall>i \<in> set (code_of s' u). i \<in> set (code_of s u) \<or> (\<exists>v m. i = I_Sleep v m) \<or> (\<exists>m. i = I_Lock m))"
  using assms(1)
proof (cases rule: machine_stepE)
  case (Loop t i c v m)
  have "set (again i) \<subseteq> {i}" by (cases i) simp_all
  with Loop assms(2) show ?thesis by auto
qed (use assms(2) in auto)

lemma machine_step_threads:
  "machine_step w ch s = Some s' \<Longrightarrow> length (mc_threads s') = length (mc_threads s)"
  by (erule machine_stepE) simp_all

lemma machine_step_ring:
  assumes "machine_step w ch s = Some s'"
  obtains (quiet) "mc_ring s' = mc_ring s" "mc_log s' = mc_log s"
  | (ring) t p c b q where "t < length (mc_threads s)" "code_of s t = I_Ring p # c"
      "fifo_step RingQueue_impl (mc_ring s) p = Inr (b, q)" "mc_ring s' = q"
      "mc_log s' = mc_log s @ [(t, p, b)]"
  using assms by (rule machine_stepE) (use that in simp_all)

lemma machine_step_ops_ok:
  assumes "machine_step w ch s = Some s'" and "\<And>u. u < length (mc_threads s) \<Longrightarrow> ring_ops_ok (code_of s u)"
    and "u < length (mc_threads s')"
  shows "ring_ops_ok (code_of s' u)"
proof -
  have u: "u < length (mc_threads s)" using assms(3) machine_step_threads [OF assms(1)] by simp
  from machine_step_code [OF assms(1) u] show ?thesis
    using assms(2) [OF u] by (auto simp: op_code_ring)
qed

lemma machine_step_follows:
  assumes "machine_step w ch s = Some s'" and "ring_follows cap s"
  shows "ring_follows cap s'"
proof -
  have ok: "ring_ops_ok (code_of s t)" if "t < length (mc_threads s)" for t
    using assms(2) that by (simp add: ring_follows_def)
  have ok': "\<forall>t < length (mc_threads s'). ring_ops_ok (code_of s' t)"
    using machine_step_ops_ok [OF assms(1) ok] by blast
  from assms(1) show ?thesis
  proof (cases rule: machine_step_ring)
    case quiet
    then show ?thesis using assms(2) ok' by (simp add: ring_follows_def log_ops_def log_obs_def)
  next
    case (ring t p c b q)
    then have "fifo_op_ok p" using ok [of t] by simp
    moreover have r: "rq_inv (mc_ring s)" "rq_cap (mc_ring s) = cap"
      using assms(2) by (simp_all add: ring_follows_def)
    ultimately have "rq_inv q" "rq_cap q = cap" "spec_step cap (rq_cont (mc_ring s)) p = (b, rq_cont q)"
      using rq.step_simulates [of "mc_ring s" p] ring(3) by auto
    moreover have "qb_m_total_count q = 0"
      using fifo_step_shadowed [OF ring(3)] assms(2) by (simp add: ring_follows_def)
    moreover have "log_ops s' = log_ops s @ [p]" "log_obs s' = log_obs s @ [b]"
      using ring(5) by (simp_all add: log_ops_def log_obs_def)
    ultimately show ?thesis
      using ring ok' assms(2) by (simp add: ring_follows_def spec_run_snoc)
  qed
qed

lemma machine_reaches_follows:
  assumes "machine_reaches w may (machine_init w n) s" and "core w = RingQueue_ctor c z"
  shows "ring_follows (unat c) s"
  using assms(1)
proof (induction rule: machine_reaches.induct)
  case mr_start
  then show ?case by (simp add: ring_follows_def assms(2) RingQueue_ctor_fresh)
next
  case (mr_step s ch s')
  then show ?case using machine_step_follows by blast
qed

text \<open>Chains that lock one mutex on either side.\<close>

definition guarded_chain :: "nat \<Rightarrow> queue_obj \<Rightarrow> bool" where
  "guarded_chain m w \<longleftrightarrow> put_locks w = [m] \<and> get_locks w = [m]"

lemma guarded_chain_typed: "guarded_chain m w \<Longrightarrow> lock_typed {m} {} (op_code w p)"
  using op_code_typed [of w p "{}" "{m}" "[]"]
  by (cases p) (simp_all add: guarded_chain_def op_locks_def)

text \<open>A thread is at the ring when its next action reads or changes it.\<close>

fun touches :: "instr \<Rightarrow> bool" where
  "touches (I_Ring p) = True"
| "touches i = (waits_in i \<noteq> None)"

definition at_ring :: "machine \<Rightarrow> nat \<Rightarrow> bool" where
  "at_ring s t \<longleftrightarrow> t < length (mc_threads s)
     \<and> (case code_of s t of [] \<Rightarrow> False | i # c \<Rightarrow> touches i)"

lemma at_ring_holds: "machine_typed G s \<Longrightarrow> at_ring s t \<Longrightarrow> G \<subseteq> held s t"
  by (auto simp: at_ring_def split: list.splits dest!: machine_typedD elim!: touches.elims)

text \<open>The chains of the properties: a decorator around another one around a new ring.\<close>

definition chain2 :: "deco_class \<Rightarrow> deco_class \<Rightarrow> u32 \<Rightarrow> u32 \<Rightarrow> queue_obj" where
  "chain2 k1 k2 c z = fst (deco_build [k1, k2] (Ring (RingQueue_ctor c z)) 0)"

lemma chain2_simps:
  "chain2 k1 k2 c z =
     Deco k2 \<lparr>sy_m_mutex = 3, sy_m_condition_full = 4, sy_m_condition_empty = 5\<rparr>
       (Deco k1 \<lparr>sy_m_mutex = 3, sy_m_condition_full = 4, sy_m_condition_empty = 5\<rparr> (Ring (RingQueue_ctor c z)))"
  by (simp add: chain2_def deco_ctor_def Let_def)

text \<open>Everything a concrete run of two or three threads unfolds to.\<close>

lemma replicate_numerals: "replicate 2 x = [x, x]" "replicate 3 x = [x, x, x]"
  by (simp_all add: numeral_2_eq_2 numeral_3_eq_3)

lemmas machine_run_simps =
  machine_init_def set_thread_def ring_empty_def ring_full_def chain2_simps op_defs at_ring_def
  replicate_numerals

subsection \<open>Properties\<close>

text \<open>
  C27. In every state that threads calling \<open>put\<close>, \<open>get\<close> and \<open>peek\<close> of one chain can reach, a chain that locks
  no mutex twice on a call keeps its locking well typed: what each thread still has to do matches the
  mutexes it holds, so that it unlocks and sleeps only on mutexes of its own, never locks a mutex it
  already owns, and holds nothing once its call has returned.
\<close>

theorem locking_is_well_typed:
  assumes "machine_reaches w anyone (machine_init w n) s" and "distinct (put_locks w)" and "distinct (get_locks w)"
    and "t < length (mc_threads s)"
  shows "lock_typed {} (held s t) (code_of s t)
    \<and> (code_of s t = [] \<longrightarrow> held s t = {})
    \<and> (\<forall>m c. code_of s t = I_Lock m # c \<longrightarrow> mc_owner s m \<noteq> Some t)
    \<and> (\<forall>m c. code_of s t = I_Unlock m # c \<longrightarrow> mc_owner s m = Some t)
    \<and> (\<forall>v m c. code_of s t = I_Sleep v m # c \<longrightarrow> mc_owner s m = Some t)"
proof -
  have "lock_typed {} {} (op_code w p)" for p
    using op_code_typed [of w p "{}" "{}" "[]"] assms(2,3) by (simp add: op_locks_def split: fifo_op.splits)
  from machine_typedD [OF machine_reaches_typed [OF assms(1) this] assms(4)]
  show ?thesis by (auto simp: held_def)
qed

theorem locking_is_well_typed_witness:
  "\<exists>s. machine_run (Deco RQ_BlockReadDecorator \<lparr>sy_m_mutex = 0, sy_m_condition_full = 1, sy_m_condition_empty = 2\<rparr>
      (Ring (RingQueue_ctor 1 1))) [Call 0 (Get [0] 1), Run 0, Run 0]
      (machine_init (Deco RQ_BlockReadDecorator \<lparr>sy_m_mutex = 0, sy_m_condition_full = 1, sy_m_condition_empty = 2\<rparr>
      (Ring (RingQueue_ctor 1 1))) 1) = Some s \<and> hd (code_of s 0) = I_Sleep 2 0 \<and> mc_owner s 0 = Some 0"
proof -
  let ?w = "Deco RQ_BlockReadDecorator \<lparr>sy_m_mutex = 0, sy_m_condition_full = 1, sy_m_condition_empty = 2\<rparr>
      (Ring (RingQueue_ctor 1 1))"
  let ?chs = "[Call 0 (Get [0] 1), Run 0, Run 0]"
  obtain s where s: "machine_run ?w ?chs (machine_init ?w 1) = Some s"
    "code_of s 0 = [I_Sleep 2 0, I_While_Empty 2 0, I_Ring (Get [0] 1), I_Notify 1, I_Unlock 0]"
    "length (mc_threads s) = 1"
    by (simp add: machine_run_simps)
  have "machine_reaches ?w anyone (machine_init ?w 1) s"
    by (rule machine_run_reaches [OF s(1) _ mr_start]) simp
  from locking_is_well_typed [OF this, of 0] s show ?thesis by auto
qed

text \<open>
  C12. Mutual exclusion: when the chain locks the same single mutex on \<open>put\<close> and on \<open>get\<close> and \<open>peek\<close>, no two
  threads are ever about to read or change the ring at the same time, whatever the interleaving.
\<close>

theorem locked_queue_excludes:
  assumes "machine_reaches w anyone (machine_init w n) s" and "guarded_chain m w"
    and "at_ring s t" and "at_ring s u"
  shows "t = u"
proof -
  have "machine_typed {m} s"
    by (rule machine_reaches_typed [OF assms(1) guarded_chain_typed [OF assms(2)]])
  from at_ring_holds [OF this assms(3)] at_ring_holds [OF this assms(4)] show ?thesis
    using held_once by blast
qed

theorem locked_queue_excludes_witness:
  "\<exists>s. machine_run (chain2 (RQ_BlockWriteTimedDecorator 5) RQ_BlockReadDecorator 1 1)
      [Call 0 (Put [7] 1), Run 0, Call 1 (Get [0] 1)]
      (machine_init (chain2 (RQ_BlockWriteTimedDecorator 5) RQ_BlockReadDecorator 1 1) 2) = Some s
    \<and> at_ring s 0 \<and> \<not> at_ring s 1"
proof -
  let ?w = "chain2 (RQ_BlockWriteTimedDecorator 5) RQ_BlockReadDecorator 1 1"
  let ?chs = "[Call 0 (Put [7] 1), Run 0, Call 1 (Get [0] 1)]"
  obtain s where s: "machine_run ?w ?chs (machine_init ?w 2) = Some s" "at_ring s 0"
    by (simp add: machine_run_simps)
  have "machine_reaches ?w anyone (machine_init ?w 2) s"
    by (rule machine_run_reaches [OF s(1) _ mr_start]) simp
  moreover have "guarded_chain 3 ?w" by (simp add: guarded_chain_def chain2_simps)
  ultimately have "at_ring s 1 \<Longrightarrow> 0 = (1 :: nat)" by (rule locked_queue_excludes [OF _ _ s(2)])
  with s show ?thesis by auto
qed




end
