(* ===== verification/Blocking_Waits.thy ===== *)
theory Blocking_Waits
  imports Blocking_Machine
begin

text \<open>
  What the waits of the decorators guarantee when several threads call them: a \<open>put\<close> that waits for room
  never gets past its wait, a \<open>get\<close> that waits for an item never finds the ring empty, and when a
  notification can and cannot be lost.
\<close>

subsection \<open>A blocking \<open>put\<close> waits before it reaches the ring\<close>

fun put_gated :: "instr list \<Rightarrow> bool" where
  "put_gated [] = True"
| "put_gated (I_While_Full v m # c) = True"
| "put_gated (I_Ring (Put buf n) # c) = False"
| "put_gated (i # c) = put_gated c"

lemma put_gated_op_code:
  "list_ex put_blocks (classes w) \<or> (\<forall>buf n. p \<noteq> Put buf n) \<Longrightarrow> put_gated c \<Longrightarrow> put_gated (op_code w p @ c)"
proof (induction w arbitrary: c)
  case (Ring q)
  then show ?case by (cases p) simp_all
next
  case (Deco k s w)
  then show ?case by (cases k; cases p) simp_all
qed

lemma put_gated_test:
  assumes "waits_in i = Some (v, m)" and "\<not> (\<exists>v m. i = I_While_Full v m)"
  shows "put_gated (i # c) = put_gated c"
  using assms by (cases i) simp_all

lemma machine_step_gated:
  assumes "machine_step w ch s = Some s'" and "list_ex put_blocks (classes w)" and "qb_m_total_count (mc_ring s) = 0"
    and "\<forall>t < length (mc_threads s). put_gated (code_of s t)"
  shows "\<forall>t < length (mc_threads s'). put_gated (code_of s' t)"
proof -
  have full: "ring_full s" using assms(3) by (simp add: ring_full_def op_defs)
  note gated = assms(4) [rule_format]
  from assms(1) show ?thesis
  proof (cases rule: machine_stepE)
    case (Call t p)
    then show ?thesis using gated put_gated_op_code [of w p "[]"] assms(2) by auto
  next
    case (Pass t i c v m)
    then have "\<not> (\<exists>v m. i = I_While_Full v m)" using full by auto
    with Pass show ?thesis using gated put_gated_test [of i v m c] by fastforce
  next
    case (Loop t i c v m)
    then have "put_gated (i # c)" using gated [of t] by simp
    then have "put_gated (again i @ c)" using Loop(4) by (cases i) simp_all
    with Loop show ?thesis using gated by auto
  next
    case (Ring t p c b q)
    then have "put_gated (I_Ring p # c)" using gated [of t] by simp
    then have "put_gated c" by (cases p) simp_all
    with Ring show ?thesis using gated by auto
  qed (use gated in fastforce)+
qed

text \<open>Once a gated \<open>put\<close> has started, its ring action stays in the code of its thread.\<close>

lemma machine_step_put_stays:
  assumes "machine_step w ch s = Some s'" and "put_gated (code_of s t)" and "t < length (mc_threads s)"
    and "I_Ring (Put buf n) \<in> set (code_of s t)" and "qb_m_total_count (mc_ring s) = 0"
  shows "I_Ring (Put buf n) \<in> set (code_of s' t)"
proof -
  have "ring_full s" using assms(5) by (simp add: ring_full_def op_defs)
  from assms(1) show ?thesis
  proof (cases rule: machine_stepE)
    case (Pass u i c v m)
    then show ?thesis using assms(2-4) \<open>ring_full s\<close> by (cases i) auto
  next
    case (Loop u i c v m)
    then show ?thesis using assms(2-4) by (cases i) auto
  next
    case (Ring u p c b q)
    then show ?thesis using assms(2-4) by (cases p) auto
  qed (use assms(2-4) in auto)
qed

lemma machine_reaches_trans:
  "machine_reaches w may s0 s1 \<Longrightarrow> machine_reaches w may s1 s2 \<Longrightarrow> machine_reaches w may s0 s2"
  by (rotate_tac 1, induction rule: machine_reaches.induct) (auto intro: mr_step)

lemma machine_reaches_threads:
  "machine_reaches w may s0 s \<Longrightarrow> length (mc_threads s) = length (mc_threads s0)"
  by (induction rule: machine_reaches.induct) (auto dest: machine_step_threads)

lemma machine_reaches_gated:
  assumes "machine_reaches w may (machine_init w n) s" and "core w = RingQueue_ctor c z"
    and "list_ex put_blocks (classes w)"
  shows "\<forall>t < length (mc_threads s). put_gated (code_of s t)"
  using assms(1)
proof (induction rule: machine_reaches.induct)
  case mr_start
  then show ?case by simp
next
  case (mr_step s ch s')
  then show ?case
    using machine_step_gated [OF mr_step.hyps(3) assms(3)] machine_reaches_follows [OF mr_step.hyps(1) assms(2)]
    by (simp add: ring_follows_def)
qed

lemma machine_reaches_no_put:
  assumes "machine_reaches w may (machine_init w n) s" and "core w = RingQueue_ctor c z"
    and "list_ex put_blocks (classes w)"
  shows "Put buf m \<notin> set (log_ops s)"
  using assms(1)
proof (induction rule: machine_reaches.induct)
  case mr_start
  then show ?case by simp
next
  case (mr_step s ch s')
  from mr_step.hyps(3) show ?case
  proof (cases rule: machine_step_ring)
    case quiet
    then show ?thesis using mr_step.IH by (simp add: log_ops_def)
  next
    case (ring t p c b q)
    have "put_gated (I_Ring p # c)"
      using machine_reaches_gated [OF mr_step.hyps(1) assms(2,3)] ring by metis
    then have "p \<noteq> Put buf m" by auto
    with ring mr_step.IH show ?thesis by (simp add: log_ops_def)
  qed
qed

lemma spec_run_without_put:
  "(\<And>buf n. Put buf n \<notin> set ps) \<Longrightarrow> spec_run cap [] ps = (bs, ys) \<Longrightarrow> ys = []"
proof (induction ps arbitrary: bs)
  case Nil
  then show ?case by simp
next
  case (Cons p ps)
  then have "\<forall>buf n. p \<noteq> Put buf n" by auto
  then have "snd (spec_step cap [] p) = []" by (cases p) (auto split: prod.splits)
  with Cons show ?case by (auto split: prod.splits)
qed

subsection \<open>A blocking \<open>get\<close> reaches the ring knowing it is not empty\<close>

text \<open>
  \<open>sees_item b c\<close>: a thread that knows, when \<open>b\<close>, that the ring is not empty calls \<open>get\<close> and \<open>peek\<close> of the
  ring only while it knows it. Passing the loop gives the knowledge, releasing a mutex loses it.
\<close>

fun sees_item :: "bool \<Rightarrow> instr list \<Rightarrow> bool" where
  "sees_item b [] = True"
| "sees_item b (I_Lock m # c) = sees_item b c"
| "sees_item b (I_Unlock m # c) = sees_item False c"
| "sees_item b (I_While_Full v m # c) = sees_item False c"
| "sees_item b (I_While_Empty v m # c) = sees_item True c"
| "sees_item b (I_If_Full v m # c) = sees_item False c"
| "sees_item b (I_If_Empty v m # c) = sees_item False c"
| "sees_item b (I_Sleep v m # c) = sees_item False c"
| "sees_item b (I_Ring p # c) = (case p of Put buf n \<Rightarrow> sees_item False c | _ \<Rightarrow> b \<and> sees_item False c)"
| "sees_item b (I_Notify v # c) = sees_item b c"

lemma sees_item_mono: "sees_item False c \<Longrightarrow> sees_item b c"
  by (induction b c rule: sees_item.induct) (auto split: fifo_op.splits)

lemma sees_item_op_code:
  "b \<or> list_ex get_blocks (classes w) \<or> (\<exists>buf n. p = Put buf n) \<Longrightarrow> length (op_locks w p) \<le> 1 \<Longrightarrow>
    (b \<longrightarrow> op_locks w p = []) \<Longrightarrow> sees_item False c \<Longrightarrow> sees_item b (op_code w p @ c)"
proof (induction w arbitrary: b c)
  case (Ring q)
  then show ?case by (cases p) simp_all
next
  case (Deco k s w)
  have IH: "sees_item b' (op_code w p @ c')"
    if "b' \<or> list_ex get_blocks (classes w) \<or> (\<exists>buf n. p = Put buf n)" "length (op_locks w p) \<le> 1"
      "b' \<longrightarrow> op_locks w p = []" "sees_item False c'" for b' c'
    using Deco.IH that by blast
  show ?case
  proof (cases p)
    case (Put buf n)
    show ?thesis
      using Deco.prems unfolding Put by (cases k) (auto simp: op_locks_def intro!: IH [unfolded Put])
  next
    case (Get out n)
    show ?thesis
      using Deco.prems unfolding Get by (cases k) (auto simp: op_locks_def intro!: IH [unfolded Get])
  next
    case (Peek out n)
    show ?thesis
      using Deco.prems unfolding Peek by (cases k) (auto simp: op_locks_def intro!: IH [unfolded Peek])
  qed
qed

definition items_seen :: "nat \<Rightarrow> machine \<Rightarrow> bool" where
  "items_seen m s \<longleftrightarrow> (\<forall>t < length (mc_threads s). \<exists>b. sees_item b (code_of s t)
     \<and> (b \<longrightarrow> m \<in> held s t \<and> \<not> ring_empty s))"

lemma items_seen_frame:
  assumes "items_seen m s" and "mc_ring s' = mc_ring s" and "length (mc_threads s') = length (mc_threads s)"
    and "t < length (mc_threads s)" and "\<exists>b. sees_item b (code_of s' t) \<and> (b \<longrightarrow> m \<in> held s' t \<and> \<not> ring_empty s)"
    and "\<And>u. u < length (mc_threads s) \<Longrightarrow> u \<noteq> t \<Longrightarrow>
      code_of s' u = code_of s u \<and> (m \<in> held s u \<longrightarrow> m \<in> held s' u)"
  shows "items_seen m s'"
  unfolding items_seen_def
proof (intro allI impI)
  fix u assume u: "u < length (mc_threads s')"
  have e: "ring_empty s' = ring_empty s" using assms(2) by (simp add: ring_empty_def)
  show "\<exists>b. sees_item b (code_of s' u) \<and> (b \<longrightarrow> m \<in> held s' u \<and> \<not> ring_empty s')"
  proof (cases "u = t")
    case True
    then show ?thesis using assms(5) e by simp
  next
    case False
    then have "code_of s' u = code_of s u" "m \<in> held s u \<longrightarrow> m \<in> held s' u"
      using assms(3,6) u by simp_all
    then show ?thesis
      using assms(1,3) u e unfolding items_seen_def by fastforce
  qed
qed

lemma machine_step_items_seen:
  assumes "machine_step w ch s = Some s'" and "items_seen m s" and "machine_typed {m} s"
    and "list_ex get_blocks (classes w)" and "guarded_chain m w"
  shows "items_seen m s'"
proof -
  have seen: "\<exists>b. sees_item b (code_of s t) \<and> (b \<longrightarrow> m \<in> held s t \<and> \<not> ring_empty s)"
    if "t < length (mc_threads s)" for t
    using assms(2) that by (simp add: items_seen_def)
  have typed: "lock_typed {m} (held s t) (code_of s t)" if "t < length (mc_threads s)" for t
    using assms(3) that by (rule machine_typedD)
  from assms(1) show ?thesis
  proof (cases rule: machine_stepE)
    case (Call t p)
    have "sees_item False (op_code w p)"
      using sees_item_op_code [of False w p "[]"] assms(4,5)
      by (auto simp: guarded_chain_def op_locks_def split: fifo_op.splits)
    with Call show ?thesis by (intro items_seen_frame [OF assms(2), of _ t]) auto
  next
    case (Lock t m' c)
    then show ?thesis
      using seen [of t] by (intro items_seen_frame [OF assms(2), of _ t]) (auto simp: held_def)
  next
    case (Unlock t m' c)
    then have "sees_item False c" "m' \<in> held s t" using seen [of t] typed [of t] by auto
    with Unlock held_once show ?thesis
      by (intro items_seen_frame [OF assms(2), of _ t]) (auto dest: held_once)
  next
    case (Pass t i c v m')
    have "m \<in> held s t" using typed [of t] Pass by (simp add: lock_typed_test(1))
    then have "\<exists>b. sees_item b c \<and> (b \<longrightarrow> m \<in> held s t \<and> \<not> ring_empty s)"
      using seen [of t] Pass by (cases i) auto
    with Pass show ?thesis by (intro items_seen_frame [OF assms(2), of _ t]) auto
  next
    case (Loop t i c v m')
    then have "sees_item False (again i @ c)"
      using seen [of t] by (cases i) auto
    with Loop show ?thesis by (intro items_seen_frame [OF assms(2), of _ t]) auto
  next
    case (Sleep t v m' c)
    then have "sees_item False c" "m' \<in> held s t" using seen [of t] typed [of t] by auto
    with Sleep show ?thesis
      by (intro items_seen_frame [OF assms(2), of _ t]) (auto dest: held_once)
  next
    case (Ring t p c b q)
    have "sees_item False c" using seen [of t] Ring by (cases p) auto
    have t: "m \<in> held s t" using typed [of t] Ring by simp
    show ?thesis
      unfolding items_seen_def
    proof (intro allI impI)
      fix u assume "u < length (mc_threads s')"
      then have u: "u < length (mc_threads s)" using Ring by simp
      obtain b' where b': "sees_item b' (code_of s u)" "b' \<longrightarrow> m \<in> held s u" using seen [OF u] by blast
      show "\<exists>b. sees_item b (code_of s' u) \<and> (b \<longrightarrow> m \<in> held s' u \<and> \<not> ring_empty s')"
      proof (cases "u = t")
        case True
        with Ring \<open>sees_item False c\<close> show ?thesis by auto
      next
        case False
        with t b'(2) have "\<not> b'" using held_once by blast
        with b'(1) False u Ring show ?thesis by (intro exI [of _ False]) simp
      qed
    qed
  next
    case (Notify t v c)
    then show ?thesis using seen [of t] by (intro items_seen_frame [OF assms(2), of _ t]) auto
  next
    case (Wake t)
    then show ?thesis using seen [of t] by (intro items_seen_frame [OF assms(2), of _ t]) auto
  next
    case (Wake_One t u v c)
    then show ?thesis using seen [of t] by (intro items_seen_frame [OF assms(2), of _ t]) auto
  qed
qed

lemma logged_get_ok:
  assumes "fifo_step RingQueue_impl q p = Inr (b, q')" and "rq_inv q" and "fifo_op_ok p"
    and "rq_cont q \<noteq> []" and "\<forall>buf n. p \<noteq> Put buf n"
  shows "obs_status b = STATUS_QUEUEBASE_OK"
proof -
  have "spec_step (rq_cap q) (rq_cont q) p = (b, rq_cont q')"
    using rq.step_simulates [OF assms(2,3)] assms(1) by auto
  then show ?thesis
    using assms(4,5) by (cases p; cases "rq_cont q") (auto simp: fifo_peek_def Let_def)
qed

lemma ring_empty_iff: "ring_empty s \<longleftrightarrow> rq_cont (mc_ring s) = []"
  using length_rq_cont [of "mc_ring s"]
  by (auto simp: ring_empty_def op_defs unat_eq_zero [symmetric] simp flip: length_0_conv)

subsection \<open>Notifications and one consumer\<close>

text \<open>
  Code of a producer: it never sleeps on the condition variable \<open>e\<close>, and after every call of the ring it
  still has to notify \<open>e\<close>. Code of the consumer: it tests for emptiness only, and it sleeps right after
  a test.
\<close>

fun producer_ok :: "nat \<Rightarrow> instr list \<Rightarrow> bool" where
  "producer_ok e [] = True"
| "producer_ok e (I_Ring p # c) \<longleftrightarrow> I_Notify e \<in> set c \<and> producer_ok e c"
| "producer_ok e (I_Sleep v m # c) \<longleftrightarrow> v \<noteq> e \<and> producer_ok e c"
| "producer_ok e (i # c) \<longleftrightarrow> (case waits_in i of None \<Rightarrow> True | Some (v, m) \<Rightarrow> v \<noteq> e) \<and> producer_ok e c"

fun sleeps :: "instr \<Rightarrow> bool" where
  "sleeps (I_Sleep v m) = True"
| "sleeps i = False"

fun tests_full :: "instr \<Rightarrow> bool" where
  "tests_full (I_While_Full v m) = True"
| "tests_full (I_If_Full v m) = True"
| "tests_full i = False"

definition consumer_ok :: "instr list \<Rightarrow> bool" where
  "consumer_ok c \<longleftrightarrow> (\<forall>i \<in> set c. \<not> tests_full i) \<and> (\<forall>i \<in> set (tl c). \<not> sleeps i)"

lemma consumer_ok_tl: "consumer_ok (i # c) \<Longrightarrow> consumer_ok c \<and> \<not> (\<exists>v m c'. c = I_Sleep v m # c')"
  by (cases c) (auto simp: consumer_ok_def)

lemma producer_ok_tl: "producer_ok e (i # c) \<Longrightarrow> producer_ok e c"
  by (cases i) auto

lemma producer_ok_test:
  assumes "producer_ok e (i # c)" and "waits_in i = Some (v, m)"
  shows "v \<noteq> e" "producer_ok e (again i @ c)"
  using assms by (cases i; simp)+

lemma consumer_ok_test:
  assumes "consumer_ok (i # c)" and "waits_in i = Some (v, m)" and "holds_back s i"
  shows "ring_empty s" "consumer_ok (I_Sleep v m # again i @ c)"
  using assms by (cases i; auto simp: consumer_ok_def)+

definition no_lost_notify :: "nat \<Rightarrow> nat \<Rightarrow> machine \<Rightarrow> bool" where
  "no_lost_notify e t s \<longleftrightarrow> t < length (mc_threads s)
     \<and> consumer_ok (code_of s t)
     \<and> (\<forall>u < length (mc_threads s). u \<noteq> t \<longrightarrow> producer_ok e (code_of s u) \<and> waits_of s u \<noteq> Some e)
     \<and> ((\<exists>v m c. code_of s t = I_Sleep v m # c) \<longrightarrow> ring_empty s)
     \<and> (waits_of s t = Some e \<longrightarrow> ring_empty s
         \<or> (\<exists>u < length (mc_threads s). u \<noteq> t \<and> I_Notify e \<in> set (code_of s u)))"

lemma no_lost_notify_quiet:
  assumes "no_lost_notify e t s" and "mc_ring s' = mc_ring s" and "length (mc_threads s') = length (mc_threads s)"
    and "consumer_ok (code_of s' t)" and "(\<exists>v m c. code_of s' t = I_Sleep v m # c) \<longrightarrow> ring_empty s"
    and "waits_of s' t = Some e \<longrightarrow> waits_of s t = Some e \<or> ring_empty s"
    and "\<And>u. u < length (mc_threads s) \<Longrightarrow> u \<noteq> t \<Longrightarrow> producer_ok e (code_of s' u) \<and> waits_of s' u \<noteq> Some e
      \<and> (waits_of s' t = Some e \<longrightarrow> I_Notify e \<in> set (code_of s u) \<longrightarrow> I_Notify e \<in> set (code_of s' u))"
  shows "no_lost_notify e t s'"
proof -
  have e: "ring_empty s' = ring_empty s" using assms(2) by (simp add: ring_empty_def)
  have "ring_empty s' \<or> (\<exists>u < length (mc_threads s'). u \<noteq> t \<and> I_Notify e \<in> set (code_of s' u))"
    if w: "waits_of s' t = Some e"
  proof (cases "ring_empty s")
    case False
    then obtain u where "u < length (mc_threads s)" "u \<noteq> t" "I_Notify e \<in> set (code_of s u)"
      using assms(1,6) w unfolding no_lost_notify_def by blast
    with assms(3,7) w show ?thesis by metis
  qed (simp add: e)
  then show ?thesis
    using assms(1,3,4,5,7) e unfolding no_lost_notify_def by simp
qed

lemma no_lost_notify_advance:
  assumes "no_lost_notify e t s" and "u < length (mc_threads s)" and "code_of s u = i # c"
    and "mc_ring s' = mc_ring s" and "length (mc_threads s') = length (mc_threads s)"
    and "code_of s' u = c" and "waits_of s' u = None" and "i = I_Notify e \<Longrightarrow> waits_of s' t \<noteq> Some e"
    and "\<And>x. x < length (mc_threads s) \<Longrightarrow> x \<noteq> u \<Longrightarrow>
      code_of s' x = code_of s x \<and> (waits_of s' x = waits_of s x \<or> waits_of s' x = None)"
  shows "no_lost_notify e t s'"
proof (rule no_lost_notify_quiet [OF assms(1,4,5)])
  have t: "t < length (mc_threads s)" "consumer_ok (code_of s t)"
    "(\<exists>v m c. code_of s t = I_Sleep v m # c) \<longrightarrow> ring_empty s"
    using assms(1) by (simp_all add: no_lost_notify_def)
  show "consumer_ok (code_of s' t)"
    using t(1,2) assms(3,6,9) consumer_ok_tl [of i c] by (cases "u = t") auto
  show "(\<exists>v m c. code_of s' t = I_Sleep v m # c) \<longrightarrow> ring_empty s"
    using t assms(3,6,9) consumer_ok_tl [of i c] by (cases "u = t") auto
  show "waits_of s' t = Some e \<longrightarrow> waits_of s t = Some e \<or> ring_empty s"
    using t(1) assms(7) assms(9) [of t] by (cases "u = t") auto
  show "producer_ok e (code_of s' x) \<and> waits_of s' x \<noteq> Some e
      \<and> (waits_of s' t = Some e \<longrightarrow> I_Notify e \<in> set (code_of s x) \<longrightarrow> I_Notify e \<in> set (code_of s' x))"
    if x: "x < length (mc_threads s)" "x \<noteq> t" for x
  proof -
    have p: "producer_ok e (code_of s x)" "waits_of s x \<noteq> Some e"
      using assms(1) x by (simp_all add: no_lost_notify_def)
    show ?thesis
    proof (cases "x = u")
      case True
      then show ?thesis using p assms(3,6,7,8) producer_ok_tl [of e i c] by auto
    next
      case False
      then show ?thesis using p assms(9) [OF x(1) False] by auto
    qed
  qed
qed

lemma machine_step_no_lost_notify:
  assumes "machine_step w ch s = Some s'" and "no_lost_notify e t s" and "machine_typed {m} s"
    and "permitted (\<lambda>u p. (u = t) = (\<forall>buf n. p \<noteq> Put buf n)) ch"
    and "\<And>buf n. producer_ok e (op_code w (Put buf n))"
    and "\<And>p. \<forall>buf n. p \<noteq> Put buf n \<Longrightarrow>
      consumer_ok (op_code w p) \<and> (\<forall>i \<in> set (op_code w p). \<not> sleeps i)"
  shows "no_lost_notify e t s'"
proof -
  have t: "t < length (mc_threads s)" "consumer_ok (code_of s t)"
    "(\<exists>v m c. code_of s t = I_Sleep v m # c) \<longrightarrow> ring_empty s"
    using assms(2) by (simp_all add: no_lost_notify_def)
  have prod: "producer_ok e (code_of s u) \<and> waits_of s u \<noteq> Some e" if "u < length (mc_threads s)" "u \<noteq> t" for u
    using assms(2) that by (simp add: no_lost_notify_def)
  have typed: "lock_typed {m} (held s u) (code_of s u)" if "u < length (mc_threads s)" for u
    using assms(3) that by (rule machine_typedD)
  note quiet = no_lost_notify_quiet [OF assms(2)] and advance = no_lost_notify_advance [OF assms(2)]
  from assms(1) show ?thesis
  proof (cases rule: machine_stepE)
    case (Call u p)
    show ?thesis
    proof (cases "u = t")
      case True
      then have "\<forall>buf n. p \<noteq> Put buf n" using assms(4) Call by simp
      from assms(6) [OF this] show ?thesis
        using Call True prod t by (intro quiet) auto
    next
      case False
      then obtain buf n where "p = Put buf n" using assms(4) Call by auto
      then show ?thesis
        using Call False prod t assms(5) by (intro quiet) auto
    qed
  next
    case (Lock u m' c)
    then show ?thesis by (intro advance [of u "I_Lock m'" c]) auto
  next
    case (Unlock u m' c)
    then show ?thesis by (intro advance [of u "I_Unlock m'" c]) auto
  next
    case (Pass u i c v m')
    then have "i \<noteq> I_Notify e" by auto
    with Pass show ?thesis by (intro advance [of u i c]) auto
  next
    case (Loop u i c v m')
    then have "i \<noteq> I_Notify e" by auto
    show ?thesis
    proof (cases "u = t")
      case True
      then show ?thesis
        using Loop prod t consumer_ok_test [of i c v m' s] by (intro quiet) auto
    next
      case False
      then have "producer_ok e (i # c)" using Loop prod [of u] by simp
      from producer_ok_test [OF this Loop(4)] show ?thesis
        using Loop False prod t \<open>i \<noteq> I_Notify e\<close> by (intro quiet) auto
    qed
  next
    case (Sleep u v m' c)
    show ?thesis
    proof (cases "u = t")
      case True
      then have "consumer_ok (I_Lock m' # c)" using Sleep t(2) by (cases c) (auto simp: consumer_ok_def)
      then show ?thesis
        using Sleep True prod t by (intro quiet) auto
    next
      case False
      then have "v \<noteq> e" "producer_ok e c" using Sleep prod [of u] by auto
      then show ?thesis
        using Sleep False prod t by (intro quiet) auto
    qed
  next
    case (Ring u p c b q)
    show ?thesis
    proof (cases "u = t")
      case True
      then show ?thesis
        using Ring prod t consumer_ok_tl [of "I_Ring p" c] unfolding no_lost_notify_def by auto
    next
      case False
      then have n: "producer_ok e c" "I_Notify e \<in> set c" using Ring prod [of u] by auto
      have "m \<in> held s u" using typed [of u] Ring by simp
      then have "m \<notin> held s t" using False held_once by blast
      then have "\<not> (\<exists>v m' c'. code_of s t = I_Sleep v m' # c')" using typed [of t] t(1) by auto
      then show ?thesis
        using Ring False prod t n unfolding no_lost_notify_def by auto
    qed
  next
    case (Notify u v c)
    then show ?thesis using t(1) by (intro advance [of u "I_Notify v" c]) auto
  next
    case (Wake u)
    then show ?thesis
      using prod t by (intro quiet) auto
  next
    case (Wake_One x y v c)
    have "waits_of s' t \<noteq> Some e" if "v = e"
      using that Wake_One prod [of y] t(1) by (cases "y = t") auto
    with Wake_One show ?thesis by (intro advance [of x "I_Notify v" c]) auto
  qed
qed

lemma machine_reaches_items_seen:
  assumes "machine_reaches w may (machine_init w n) s" and "core w = RingQueue_ctor c z"
    and "guarded_chain m w" and "list_ex get_blocks (classes w)"
  shows "items_seen m s \<and> (\<forall>(t, p, b) \<in> set (mc_log s). (\<forall>buf k. p \<noteq> Put buf k) \<longrightarrow> obs_status b = STATUS_QUEUEBASE_OK)"
  using assms(1)
proof (induction rule: machine_reaches.induct)
  case mr_start
  have "sees_item False []" by simp
  then show ?case by (auto simp: items_seen_def intro!: exI [of _ False])
next
  case (mr_step s ch s')
  have typed: "machine_typed {m} s"
    by (rule machine_reaches_typed [OF mr_step.hyps(1) guarded_chain_typed [OF assms(3)]])
  have follows: "ring_follows (unat c) s" by (rule machine_reaches_follows [OF mr_step.hyps(1) assms(2)])
  have seen: "items_seen m s'"
    using machine_step_items_seen [OF mr_step.hyps(3) _ typed assms(4,3)] mr_step.IH by blast
  from mr_step.hyps(3) show ?case
  proof (cases rule: machine_step_ring)
    case quiet
    then show ?thesis using seen mr_step.IH by simp
  next
    case (ring t p c' b q)
    have "obs_status b = STATUS_QUEUEBASE_OK" if p: "\<forall>buf k. p \<noteq> Put buf k"
    proof -
      obtain b' where "sees_item b' (I_Ring p # c')" "b' \<longrightarrow> \<not> ring_empty s"
        using mr_step.IH ring(1,2) unfolding items_seen_def by metis
      then have "\<not> ring_empty s" using p by (cases p) auto
      moreover have "rq_inv (mc_ring s)" "fifo_op_ok p"
        using follows ring(1,2) by (auto simp: ring_follows_def)
      ultimately show ?thesis
        using logged_get_ok [OF ring(3)] p by (simp add: ring_empty_iff)
    qed
    then show ?thesis using seen mr_step.IH ring(5) by auto
  qed
qed

lemma machine_reaches_no_lost_notify:
  assumes "machine_reaches (chain2 k RQ_BlockReadDecorator c z) (\<lambda>u p. (u = t) = (\<forall>buf i. p \<noteq> Put buf i))
      (machine_init (chain2 k RQ_BlockReadDecorator c z) n) s"
    and "locks_on_put k" and "t < n"
  shows "no_lost_notify 5 t s"
  using assms(1)
proof (induction rule: machine_reaches.induct)
  case mr_start
  then show ?case using assms(3) by (simp add: no_lost_notify_def consumer_ok_def)
next
  case (mr_step s ch s')
  have "guarded_chain 3 (chain2 k RQ_BlockReadDecorator c z)"
    using assms(2) by (cases k) (simp_all add: guarded_chain_def chain2_simps)
  then have typed: "machine_typed {3} s"
    using machine_reaches_typed [OF mr_step.hyps(1)] guarded_chain_typed by blast
  show ?case
  proof (rule machine_step_no_lost_notify [OF mr_step.hyps(3) mr_step.IH typed mr_step.hyps(2)])
    show "producer_ok 5 (op_code (chain2 k RQ_BlockReadDecorator c z) (Put buf i))" for buf i
      using assms(2) by (cases k) (simp_all add: chain2_simps)
    show "consumer_ok (op_code (chain2 k RQ_BlockReadDecorator c z) p)
        \<and> (\<forall>i \<in> set (op_code (chain2 k RQ_BlockReadDecorator c z) p). \<not> sleeps i)"
      if "\<forall>buf i. p \<noteq> Put buf i" for p
      using assms(2) that by (cases k; cases p) (auto simp: chain2_simps consumer_ok_def)
  qed
qed

subsection \<open>Properties\<close>

text \<open>
  C11. In no interleaving of any number of threads does a \<open>put\<close> through a blocking write decorator ever
  return or reach the ring: the ring stays empty, the log has no \<open>put\<close>, and a \<open>put\<close> that has started
  still has its call of the ring ahead of it in every later state.
\<close>

theorem BlockWrite_put_never_completes:
  assumes "machine_reaches w anyone (machine_init w n) s" and "core w = RingQueue_ctor c z"
    and "list_ex put_blocks (classes w)"
  shows "rq_cont (mc_ring s) = [] \<and> (\<forall>buf n. Put buf n \<notin> set (log_ops s))
    \<and> (\<forall>t buf n s'. t < length (mc_threads s) \<longrightarrow> I_Ring (Put buf n) \<in> set (code_of s t) \<longrightarrow>
        machine_reaches w anyone s s' \<longrightarrow> I_Ring (Put buf n) \<in> set (code_of s' t))"
proof -
  note gated = machine_reaches_gated [OF assms]
  have "Put buf m \<notin> set (log_ops s)" for buf m
    using machine_reaches_no_put [OF assms] by blast
  moreover have "spec_run (unat c) [] (log_ops s) = (log_obs s, rq_cont (mc_ring s))"
    using machine_reaches_follows [OF assms(1,2)] unfolding ring_follows_def by blast
  then have "rq_cont (mc_ring s) = []" using spec_run_without_put [OF calculation] by blast
  moreover have "I_Ring (Put buf m) \<in> set (code_of s' t)"
    if "machine_reaches w anyone s s'" "t < length (mc_threads s)" "I_Ring (Put buf m) \<in> set (code_of s t)"
    for t buf m s'
    using that(1)
  proof (induction rule: machine_reaches.induct)
    case mr_start
    show ?case by (rule that(3))
  next
    case (mr_step s1 ch s2)
    have r: "machine_reaches w anyone (machine_init w n) s1"
      using assms(1) mr_step.hyps(1) by (rule machine_reaches_trans)
    have "t < length (mc_threads s1)"
      using that(2) machine_reaches_threads [OF mr_step.hyps(1)] by simp
    then show ?case
      using machine_step_put_stays [OF mr_step.hyps(3)] mr_step.IH
        machine_reaches_gated [OF r assms(2,3)] machine_reaches_follows [OF r assms(2)]
      by (simp add: ring_follows_def)
  qed
  ultimately show ?thesis by blast
qed

theorem BlockWrite_put_never_completes_witness:
  "\<exists>s. machine_run (chain2 RQ_BlockWriteDecorator RQ_NoBlockReadDecorator 128 65535)
      [Call 0 (Put [7] 1), Run 0, Run 0, Run 0, Wake 0, Run 0]
      (machine_init (chain2 RQ_BlockWriteDecorator RQ_NoBlockReadDecorator 128 65535) 1) = Some s
    \<and> I_Ring (Put [7] 1) \<in> set (code_of s 0) \<and> rq_cont (mc_ring s) = []"
proof -
  let ?w = "chain2 RQ_BlockWriteDecorator RQ_NoBlockReadDecorator 128 65535"
  let ?chs = "[Call 0 (Put [7] 1), Run 0, Run 0, Run 0, Wake 0, Run 0]"
  obtain s where s: "machine_run ?w ?chs (machine_init ?w 1) = Some s" "I_Ring (Put [7] 1) \<in> set (code_of s 0)"
    by (simp add: machine_run_simps)
  have "machine_reaches ?w anyone (machine_init ?w 1) s"
    by (rule machine_run_reaches [OF s(1) _ mr_start]) simp
  from BlockWrite_put_never_completes [OF this, of 128 65535] s show ?thesis
    by (auto simp: chain2_simps)
qed

text \<open>
  C17. A \<open>get\<close> or \<open>peek\<close> through a blocking read decorator, in a chain that locks one mutex on both sides,
  never reports an empty ring: whatever the other threads do between its test and its call of the ring,
  every logged \<open>get\<close> and \<open>peek\<close> found an item.
\<close>

theorem blocking_get_always_finds_item:
  assumes "machine_reaches w anyone (machine_init w n) s" and "core w = RingQueue_ctor c z"
    and "guarded_chain m w" and "list_ex get_blocks (classes w)"
    and "(t, p, b) \<in> set (mc_log s)" and "\<forall>buf k. p \<noteq> Put buf k"
  shows "obs_status b = STATUS_QUEUEBASE_OK"
  using machine_reaches_items_seen [OF assms(1-4)] assms(5,6) by auto

theorem blocking_get_always_finds_item_witness:
  "\<exists>s b. machine_run (chain2 (RQ_BlockWriteTimedDecorator 5) RQ_BlockReadDecorator 1 1)
      [Call 0 (Put [7] 1), Run 0, Run 0, Run 0, Wake 0, Run 0, Run 0, Run 0, Run 0,
       Call 1 (Peek [0] 1), Run 1, Run 1, Run 1]
      (machine_init (chain2 (RQ_BlockWriteTimedDecorator 5) RQ_BlockReadDecorator 1 1) 2) = Some s
    \<and> (1, Peek [0] 1, b) \<in> set (mc_log s) \<and> obs_status b = STATUS_QUEUEBASE_OK"
proof -
  let ?w = "chain2 (RQ_BlockWriteTimedDecorator 5) RQ_BlockReadDecorator 1 1"
  let ?chs = "[Call 0 (Put [7] 1), Run 0, Run 0, Run 0, Wake 0, Run 0, Run 0, Run 0, Run 0,
       Call 1 (Peek [0] 1), Run 1, Run 1, Run 1]"
  let ?q = "RingQueue_ctor 1 1"
  obtain b1 q1 where 1: "fifo_step RingQueue_impl ?q (Put [7] 1) = Inr (b1, q1)" "rq_inv q1" "rq_cont q1 = [[7]]"
    using rq.step_simulates [of ?q "Put [7] 1"] by (auto simp: RingQueue_ctor_fresh fifo_put_def)
  obtain b2 q2 where 2: "fifo_step RingQueue_impl q1 (Peek [0] 1) = Inr (b2, q2)"
    using rq.step_simulates [of q1 "Peek [0] 1"] 1 by auto
  have "qb_m_size q1 \<noteq> 0" using rq_cont_pos [OF 1(3)] by (simp add: size_nonzero)
  then obtain s where s: "machine_run ?w ?chs (machine_init ?w 2) = Some s"
    "mc_log s = [(0, Put [7] 1, b1), (1, Peek [0] 1, b2)]"
    using 1(1) 2
    by (simp add: machine_run_simps del: fifo_step.simps)
  have "machine_reaches ?w anyone (machine_init ?w 2) s"
    by (rule machine_run_reaches [OF s(1) _ mr_start]) simp
  from blocking_get_always_finds_item [OF this, of 1 1 3 1 "Peek [0] 1" b2] s show ?thesis
    by (auto simp: chain2_simps guarded_chain_def)
qed

text \<open>
  C19. No notification is lost between blocking readers and locking writers while one thread consumes:
  when every call of the producers has returned and the consumer sleeps in its wait for an item, there is
  no item. (Thread \<open>t\<close> makes all the \<open>get\<close> and \<open>peek\<close> calls and no \<open>put\<close>.)
\<close>

theorem sleeping_consumer_means_empty:
  assumes "machine_reaches (chain2 k RQ_BlockReadDecorator c z) (\<lambda>u p. (u = t) = (\<forall>buf i. p \<noteq> Put buf i))
      (machine_init (chain2 k RQ_BlockReadDecorator c z) n) s"
    and "locks_on_put k" and "t < n"
    and "waits_of s t = Some 5" and "\<forall>u < n. u \<noteq> t \<longrightarrow> code_of s u = []"
  shows "rq_cont (mc_ring s) = []"
proof -
  have len: "length (mc_threads s) = n" using machine_reaches_threads [OF assms(1)] by simp
  have "no_lost_notify 5 t s" by (rule machine_reaches_no_lost_notify [OF assms(1-3)])
  with assms(3-5) len have "ring_empty s" unfolding no_lost_notify_def by (metis empty_iff empty_set)
  then show ?thesis by (simp add: ring_empty_iff)
qed

theorem sleeping_consumer_means_empty_witness:
  "\<exists>s. machine_run (chain2 (RQ_BlockWriteTimedDecorator 5) RQ_BlockReadDecorator 1 1)
      [Call 1 (Get [0] 1), Run 1, Run 1, Run 1]
      (machine_init (chain2 (RQ_BlockWriteTimedDecorator 5) RQ_BlockReadDecorator 1 1) 2) = Some s
    \<and> waits_of s 1 = Some 5 \<and> rq_cont (mc_ring s) = []"
proof -
  let ?w = "chain2 (RQ_BlockWriteTimedDecorator 5) RQ_BlockReadDecorator 1 1"
  let ?may = "\<lambda>u p. (u = (1 :: nat)) = (\<forall>buf i. p \<noteq> Put buf i)"
  let ?chs = "[Call 1 (Get [0] 1), Run 1, Run 1, Run 1]"
  obtain s where s: "machine_run ?w ?chs (machine_init ?w 2) = Some s" "waits_of s 1 = Some 5" "code_of s 0 = []"
    by (simp add: machine_run_simps)
  have "machine_reaches ?w ?may (machine_init ?w 2) s"
    by (rule machine_run_reaches [OF s(1) _ mr_start]) simp
  from sleeping_consumer_means_empty [OF this _ _ s(2)] s show ?thesis by (auto simp: less_2_cases_iff)
qed

text \<open>
  C40. Two ways to lose a notification. A non-blocking writer notifies without taking the mutex, so its
  notification can fall between the test and the wait of a blocking reader; and with two readers the
  single notification of a \<open>put\<close> can wake one that only peeks. In both runs every other call has returned,
  the item is in the ring, and the reader that waits for it sleeps on.
\<close>

theorem notification_can_be_lost:
  "(\<exists>chs s. machine_run (chain2 RQ_NoBlockWriteDecorator RQ_BlockReadDecorator 1 1) chs
      (machine_init (chain2 RQ_NoBlockWriteDecorator RQ_BlockReadDecorator 1 1) 2) = Some s
      \<and> code_of s 0 = [] \<and> waits_of s 1 = Some 5 \<and> rq_cont (mc_ring s) = [[7]])
   \<and> (\<exists>chs s. machine_run (chain2 (RQ_BlockWriteTimedDecorator t) RQ_BlockReadDecorator 1 1) chs
      (machine_init (chain2 (RQ_BlockWriteTimedDecorator t) RQ_BlockReadDecorator 1 1) 3) = Some s
      \<and> code_of s 0 = [] \<and> waits_of s 1 = Some 5 \<and> code_of s 2 = [] \<and> rq_cont (mc_ring s) = [[7]])"
proof -
  let ?q = "RingQueue_ctor 1 1"
  obtain b1 q1 where 1: "fifo_step RingQueue_impl ?q (Put [7] 1) = Inr (b1, q1)" "rq_inv q1" "rq_cont q1 = [[7]]"
    using rq.step_simulates [of ?q "Put [7] 1"] by (auto simp: RingQueue_ctor_fresh fifo_put_def)
  obtain b2 q2 where 2: "fifo_step RingQueue_impl q1 (Peek [0] 1) = Inr (b2, q2)" "rq_cont q2 = [[7]]"
    using rq.step_simulates [of q1 "Peek [0] 1"] 1 by (auto split: prod.splits)
  have q1: "qb_m_size q1 \<noteq> 0" using rq_cont_pos [OF 1(3)] by (simp add: size_nonzero)
  show ?thesis
  proof (intro conjI)
    let ?c = "[Call 1 (Get [0] 1), Run 1, Run 1, Call 0 (Put [7] 1), Run 0, Run 0, Run 1]"
    show "\<exists>chs s. machine_run (chain2 RQ_NoBlockWriteDecorator RQ_BlockReadDecorator 1 1) chs
      (machine_init (chain2 RQ_NoBlockWriteDecorator RQ_BlockReadDecorator 1 1) 2) = Some s
      \<and> code_of s 0 = [] \<and> waits_of s 1 = Some 5 \<and> rq_cont (mc_ring s) = [[7]]"
      by (rule exI [of _ ?c]) (use 1 in \<open>simp add: machine_run_simps del: fifo_step.simps\<close>)
  next
    let ?c = "[Call 1 (Get [0] 1), Run 1, Run 1, Run 1, Call 2 (Peek [0] 1), Run 2, Run 2, Run 2,
      Call 0 (Put [7] 1), Run 0, Run 0, Run 0, Wake 0, Run 0, Run 0, Wake_One 0 2, Run 0,
      Run 2, Run 2, Run 2, Run 2]"
    show "\<exists>chs s. machine_run (chain2 (RQ_BlockWriteTimedDecorator t) RQ_BlockReadDecorator 1 1) chs
      (machine_init (chain2 (RQ_BlockWriteTimedDecorator t) RQ_BlockReadDecorator 1 1) 3) = Some s
      \<and> code_of s 0 = [] \<and> waits_of s 1 = Some 5 \<and> code_of s 2 = [] \<and> rq_cont (mc_ring s) = [[7]]"
      by (rule exI [of _ ?c]) (use 1 2 q1 in \<open>simp add: machine_run_simps numeral_2_eq_2 del: fifo_step.simps\<close>)
  qed
qed

end
