(* ===== verification/Blocking_Progress.thy ===== *)
theory Blocking_Progress
  imports Blocking_Waits
begin

text \<open>
  Progress of the thread machine: a call that no other thread disturbs runs to its end by steps of its
  own thread alone, with the result of the bounded FIFO, when the chain has no blocking decorator and
  locks no mutex twice. A wait of a timed decorator ends by its timeout.
\<close>

subsection \<open>A thread that nobody disturbs\<close>

definition solo :: "queue_obj \<Rightarrow> nat \<Rightarrow> machine \<Rightarrow> machine \<Rightarrow> bool" where
  "solo w t s s' \<longleftrightarrow> (\<exists>chs. set chs \<subseteq> {Run t, Wake t} \<and> machine_run w chs s = Some s')"

lemma machine_run_append:
  "machine_run w (xs @ ys) s = (case machine_run w xs s of None \<Rightarrow> None | Some s' \<Rightarrow> machine_run w ys s')"
  by (induction xs arbitrary: s) (auto split: option.splits)

lemma solo_refl: "solo w t s s"
  unfolding solo_def by (rule exI [of _ "[]"]) simp

lemma solo_trans:
  assumes "solo w t s s1" and "solo w t s1 s2"
  shows "solo w t s s2"
proof -
  obtain xs ys where "set xs \<subseteq> {Run t, Wake t}" "machine_run w xs s = Some s1"
    "set ys \<subseteq> {Run t, Wake t}" "machine_run w ys s1 = Some s2"
    using assms unfolding solo_def by blast
  then show ?thesis unfolding solo_def by (intro exI [of _ "xs @ ys"]) (simp add: machine_run_append)
qed

lemma solo_run: "machine_step w (Run t) s = Some s1 \<Longrightarrow> solo w t s1 s2 \<Longrightarrow> solo w t s s2"
  by (rule solo_trans [of w t s s1]) (auto simp: solo_def intro!: exI [of _ "[Run t]"])

lemma solo_wake: "machine_step w (Wake t) s = Some s1 \<Longrightarrow> solo w t s1 s2 \<Longrightarrow> solo w t s s2"
  by (rule solo_trans [of w t s s1]) (auto simp: solo_def intro!: exI [of _ "[Wake t]"])

text \<open>\<open>alone s t\<close>: thread \<open>t\<close> is awake, and so are all others.\<close>

definition alone :: "machine \<Rightarrow> nat \<Rightarrow> bool" where
  "alone s t \<longleftrightarrow> t < length (mc_threads s) \<and> (\<forall>th \<in> set (mc_threads s). th_waits th = None)"

lemma set_thread_twice [simp]: "set_thread (set_thread s t c v) t c' v' = set_thread s t c' v'"
  by (simp add: set_thread_def)

lemma set_thread_fields [simp]:
  "(set_thread s t c v)\<lparr>mc_owner := ow\<rparr> = set_thread (s\<lparr>mc_owner := ow\<rparr>) t c v"
  "(set_thread s t c v)\<lparr>mc_ring := q\<rparr> = set_thread (s\<lparr>mc_ring := q\<rparr>) t c v"
  "(set_thread s t c v)\<lparr>mc_log := l\<rparr> = set_thread (s\<lparr>mc_log := l\<rparr>) t c v"
  by (simp_all add: set_thread_def)

lemma alone_simps [simp]:
  "alone s t \<Longrightarrow> alone (set_thread s t c None) t"
  "alone s t \<Longrightarrow> alone (s\<lparr>mc_owner := ow\<rparr>) t" "alone s t \<Longrightarrow> alone (s\<lparr>mc_ring := q\<rparr>) t"
  "alone s t \<Longrightarrow> alone (s\<lparr>mc_log := l\<rparr>) t"
  "alone s t \<Longrightarrow> t < length (mc_threads s)" "alone s t \<Longrightarrow> waits_of s t = None"
  by (auto simp: alone_def set_thread_def dest!: set_update_subset_insert [THEN subsetD])

lemma alone_run:
  assumes "alone s t" and "code_of s t = i # c"
  shows "machine_step w (Run t) s = exec_instr t i c s"
  using assms by simp

lemma alone_notify:
  assumes "alone s t"
  shows "exec_instr t (I_Notify v) c s = Some (set_thread s t c None)"
proof -
  have "\<not> list_ex (\<lambda>th. th_waits th = Some v) (mc_threads s)"
  proof
    assume "list_ex (\<lambda>th. th_waits th = Some v) (mc_threads s)"
    then obtain th where "th \<in> set (mc_threads s)" "th_waits th = Some v" by (auto simp: list_ex_iff)
    then show False using assms by (simp add: alone_def)
  qed
  then show ?thesis unfolding exec_instr.simps by (rule if_not_P)
qed

text \<open>A timed decorator: whether the wait is needed or not, its thread gets to the call with the mutex.\<close>

lemma solo_enter_timed:
  assumes "alone s t" and "code_of s t = I_Lock m # i # c" and "mc_owner s m = None"
    and "waits_in i = Some (v, m)" and "again i = []"
  shows "solo w t s (set_thread (s\<lparr>mc_owner := (mc_owner s)(m := Some t)\<rparr>) t c None)"
proof -
  let ?s = "s\<lparr>mc_owner := (mc_owner s)(m := Some t)\<rparr>"
  have t: "t < length (mc_threads s)" using assms(1) by simp
  have "solo w t (set_thread ?s t (i # c) None) (set_thread ?s t c None)"
  proof (cases "holds_back ?s i")
    case False
    then show ?thesis
      using assms(4,5) t by (intro solo_run [OF _ solo_refl]) (cases i; auto)
  next
    case True
    let ?z = "set_thread (?s\<lparr>mc_owner := (mc_owner s)(m := None)\<rparr>) t (I_Lock m # c)"
    have "solo w t (?z None) (set_thread ?s t c None)"
      using t assms(3) by (intro solo_run [OF _ solo_refl]) simp
    then have "solo w t (?z (Some v)) (set_thread ?s t c None)"
      by (rule solo_wake [rotated]) (use t in simp)
    then have "solo w t (set_thread ?s t (I_Sleep v m # c) None) (set_thread ?s t c None)"
      by (rule solo_run [rotated]) (use t in simp)
    then show ?thesis
      by (rule solo_run [rotated]) (use True assms(4,5) t in \<open>cases i; simp\<close>)
  qed
  then show ?thesis
    by (rule solo_run [rotated]) (use assms t in simp)
qed

lemma solo_notify:
  assumes "alone s t" and "code_of s t = I_Notify v # c" and "solo w t (set_thread s t c None) s'"
  shows "solo w t s s'"
  using assms(3) by (rule solo_run [rotated]) (simp only: alone_run [OF assms(1,2)] alone_notify [OF assms(1)])

lemma solo_unlock:
  assumes "alone s t" and "code_of s t = I_Unlock m # c"
    and "solo w t (set_thread (s\<lparr>mc_owner := (mc_owner s)(m := None)\<rparr>) t c None) s'"
  shows "solo w t s s'"
  using assms(3) by (rule solo_run [rotated]) (use assms in simp)

text \<open>The state after a call of the ring by thread \<open>t\<close>, with the code \<open>c\<close> left.\<close>

definition ring_done :: "machine \<Rightarrow> nat \<Rightarrow> fifo_op \<Rightarrow> fifo_obs \<Rightarrow> ring_queue \<Rightarrow> instr list \<Rightarrow> machine" where
  "ring_done s t p b q c = set_thread (s\<lparr>mc_ring := q, mc_log := mc_log s @ [(t, p, b)]\<rparr>) t c None"

lemma ring_done_alone [simp]:
  assumes "alone s t"
  shows "alone (ring_done s t p b q c) t"
proof -
  have "ring_done s t p b q c = set_thread (s\<lparr>mc_ring := q\<rparr>\<lparr>mc_log := mc_log s @ [(t, p, b)]\<rparr>) t c None"
    by (simp add: ring_done_def)
  then show ?thesis using assms by simp
qed

lemma ring_done_simps [simp]:
  "mc_ring (ring_done s t p b q c) = q" "mc_log (ring_done s t p b q c) = mc_log s @ [(t, p, b)]"
  "mc_owner (ring_done s t p b q c) = mc_owner s"
  "alone s t \<Longrightarrow> code_of (ring_done s t p b q c) t = c"
  "set_thread (ring_done s t p b q c) t c' None = ring_done s t p b q c'"
  "ring_done (set_thread s t c' None) t p b q c = ring_done s t p b q c"
  "mc_owner s m = None \<Longrightarrow>
    set_thread ((ring_done (s\<lparr>mc_owner := (mc_owner s)(m := Some t)\<rparr>) t p b q c')
      \<lparr>mc_owner := (mc_owner s)(m := None)\<rparr>) t c None = ring_done s t p b q c"
  by (auto simp: ring_done_def set_thread_def fun_upd_idem)

lemma solo_op:
  assumes "alone s t" and "code_of s t = op_code u p @ c"
    and "\<forall>m \<in> set (op_locks u p). mc_owner s m = None" and "distinct (op_locks u p)"
    and "fifo_step RingQueue_impl (mc_ring s) p = Inr (b, q)"
    and "\<not> list_ex put_blocks (classes u)" and "\<not> list_ex get_blocks (classes u)"
  shows "solo w t s (ring_done s t p b q c)"
  using assms
proof (induction u arbitrary: s c)
  case (Ring r)
  then show ?case
    by (intro solo_run [OF _ solo_refl]) (simp add: ring_done_def del: fifo_step.simps)
next
  case (Deco k y u)
  let ?m = "sy_m_mutex y"
  have IH: "solo w t s' (ring_done s' t p b q c')"
    if "alone s' t" "code_of s' t = op_code u p @ c'" "\<forall>m \<in> set (op_locks u p). mc_owner s' m = None"
      "mc_ring s' = mc_ring s" for s' c'
    using Deco.IH [OF that(1-3)] Deco.prems(4-7) that(4)
    by (cases k; cases p) (simp_all add: op_locks_def del: fifo_step.simps)
  have timed: "solo w t s (ring_done s t p b q c)"
    if code: "code_of s t = I_Lock ?m # i # op_code u p @ n @ I_Unlock ?m # c"
      and i: "waits_in i = Some (v, ?m)" "again i = []" and n: "n = [] \<or> n = [I_Notify v']"
      and locks: "op_locks (Deco k y u) p = ?m # op_locks u p" for i v v' n
  proof -
    let ?s = "s\<lparr>mc_owner := (mc_owner s)(?m := Some t)\<rparr>"
    let ?s1 = "set_thread ?s t (op_code u p @ n @ I_Unlock ?m # c) None"
    have free: "mc_owner s ?m = None" using Deco.prems(3) locks by simp
    have "alone ?s1 t" using Deco.prems(1) by simp
    moreover have "\<forall>m \<in> set (op_locks u p). mc_owner ?s1 m = None"
      using Deco.prems(3,4) locks by auto
    ultimately have "solo w t ?s1 (ring_done ?s1 t p b q (n @ I_Unlock ?m # c))"
      using Deco.prems(1) by (intro IH) simp_all
    moreover have "solo w t (ring_done ?s1 t p b q (n @ I_Unlock ?m # c)) (ring_done ?s1 t p b q (I_Unlock ?m # c))"
      using n
    proof
      assume n': "n = [I_Notify v']"
      show ?thesis unfolding n'
        by (rule solo_notify [of _ t v' "I_Unlock ?m # c"]) (simp_all add: solo_refl Deco.prems(1))
    qed (simp add: solo_refl)
    moreover have "solo w t (ring_done ?s1 t p b q (I_Unlock ?m # c)) (ring_done s t p b q c)"
      by (rule solo_unlock [of _ t ?m c]) (simp_all add: solo_refl Deco.prems(1) free)
    ultimately have "solo w t ?s1 (ring_done s t p b q c)" by (rule solo_trans [OF solo_trans])
    then show ?thesis by (rule solo_trans [OF solo_enter_timed [OF Deco.prems(1) code free i]])
  qed
  have notified: "solo w t s (ring_done s t p b q c)"
    if "code_of s t = op_code u p @ I_Notify v # c" "op_locks (Deco k y u) p = op_locks u p" for v
  proof -
    have "solo w t s (ring_done s t p b q (I_Notify v # c))"
      using Deco.prems(1,3) that by (intro IH) simp_all
    moreover have "solo w t (ring_done s t p b q (I_Notify v # c)) (ring_done s t p b q c)"
      by (rule solo_notify [of _ t v c]) (simp_all add: solo_refl Deco.prems(1))
    ultimately show ?thesis by (rule solo_trans)
  qed
  have plain: "solo w t s (ring_done s t p b q c)"
    if "code_of s t = op_code u p @ c" "op_locks (Deco k y u) p = op_locks u p"
    using Deco.prems(1,3) that by (intro IH) simp_all
  show ?case
    using Deco.prems(2,6,7) timed [where n = "[]"] timed [where n = "[I_Notify v]" for v] notified plain
    by (cases k; cases p) (auto simp: op_locks_def)
qed

definition machine_sane :: "machine \<Rightarrow> bool" where
  "machine_sane s \<longleftrightarrow> (\<forall>m u. mc_owner s m = Some u \<longrightarrow> u < length (mc_threads s))
     \<and> (\<forall>u < length (mc_threads s). code_of s u = [] \<longrightarrow> waits_of s u = None)"

lemma machine_step_sane: "machine_step w ch s = Some s' \<Longrightarrow> machine_sane s \<Longrightarrow> machine_sane s'"
  by (erule machine_stepE) (auto simp: machine_sane_def)

lemma machine_reaches_sane: "machine_reaches w may (machine_init w n) s \<Longrightarrow> machine_sane s"
proof (induction rule: machine_reaches.induct)
  case mr_start
  show ?case by (simp add: machine_sane_def) (simp add: machine_init_def)
next
  case (mr_step s ch s')
  then show ?case by (blast intro: machine_step_sane)
qed

subsection \<open>Properties\<close>



end
