(* ===== verification/Stream_Parser.thy ===== *)
theory Stream_Parser
  imports Shovel_Prelude
begin

text \<open>
  \<open>parsers/ParserBase.h\<close>: the strategy interface that cuts datagrams out of a byte stream. A client
  feeds the stream in chunks of any size and collects the datagrams each call found. The contract: a
  parser whose state stands for the unparsed bytes \<open>r\<close> turns a chunk \<open>c\<close> into the datagrams that a
  stream specification finds in \<open>r @ c\<close>, and keeps the bytes the specification leaves over.

  In the locale, how the stream was cut into chunks is proved to be irrelevant.
\<close>

subsection \<open>The base class\<close>

record parser_base =
  pb_m_parsing_buffer :: bytes

text \<open>
  The base \<open>put\<close> only prints a diagnostic and returns the size of the caller's vector, which it does
  not change. The return value of every \<open>put\<close> is a \<open>size_t\<close> narrowed to 32 bits.
\<close>

definition ParserBase_put ::
  "'z parser_base_scheme \<Rightarrow> bytes \<Rightarrow> u32 \<Rightarrow> bytes list \<Rightarrow> (u32 \<times> 'z parser_base_scheme \<times> bytes list) result" where
  "ParserBase_put p buf n dgs = Inr (word_of_nat (length dgs), p, dgs)"

subsection \<open>Feeding a stream in chunks\<close>

fun feed :: "('p \<Rightarrow> bytes \<Rightarrow> (bytes list \<times> 'p) result) \<Rightarrow> 'p \<Rightarrow> bytes list \<Rightarrow> (bytes list \<times> 'p) result" where
  "feed put p [] = Inr ([], p)"
| "feed put p (c # cs) =
     rbind (put p c) (\<lambda>(ds, p'). rbind (feed put p' cs) (\<lambda>(es, p''). Inr (ds @ es, p'')))"

definition seq_spec ::
  "(bytes \<Rightarrow> (bytes list \<times> bytes) result) \<Rightarrow> bytes list \<times> bytes \<Rightarrow> bytes \<Rightarrow> (bytes list \<times> bytes) result" where
  "seq_spec spec = (\<lambda>(ds, r) ys. rbind (spec (r @ ys)) (\<lambda>(es, r'). Inr (ds @ es, r')))"

locale stream_parser =
  fixes put :: "'p \<Rightarrow> bytes \<Rightarrow> (bytes list \<times> 'p) result"
    and at :: "bytes \<Rightarrow> 'p"
    and spec :: "bytes \<Rightarrow> (bytes list \<times> bytes) result"
  assumes put_law: "spec r = Inr ([], r) \<Longrightarrow> length c < 4294967296 \<Longrightarrow>
      put (at r) c = rbind (spec (r @ c)) (\<lambda>(ds, r'). Inr (ds, at r'))"
    and spec_append: "spec (xs @ ys) = rbind (spec xs) (\<lambda>p. seq_spec spec p ys)"
    and spec_residue: "spec xs = Inr (ds, r) \<Longrightarrow> spec r = Inr ([], r)"
begin

lemma feed_is_spec:
  assumes "spec r = Inr ([], r)" and "\<forall>c \<in> set cs. length c < 4294967296"
  shows "feed put (at r) cs = rbind (spec (r @ concat cs)) (\<lambda>(ds, r'). Inr (ds, at r'))"
  using assms
proof (induction cs arbitrary: r)
  case Nil
  then show ?case by simp
next
  case (Cons c cs)
  have put: "put (at r) c = rbind (spec (r @ c)) (\<lambda>(ds, r'). Inr (ds, at r'))"
    using put_law [OF Cons.prems(1)] Cons.prems(2) by simp
  show ?case
  proof (cases "spec (r @ c)")
    case (Inl e)
    then show ?thesis
      using spec_append [of "r @ c" "concat cs"] by (simp add: put)
  next
    case (Inr x)
    obtain ds r' where x: "x = (ds, r')" by fastforce
    have "spec r' = Inr ([], r')" using spec_residue [of "r @ c" ds r'] Inr x by simp
    from Cons.IH [OF this] Cons.prems(2) show ?thesis
      using spec_append [of "r @ c" "concat cs"] Inr x
      by (simp add: put seq_spec_def rbind_assoc split_def)
  qed
qed

lemma chunking_irrelevant:
  assumes "spec r = Inr ([], r)" and "concat cs = concat cs'"
    and "\<forall>c \<in> set cs \<union> set cs'. length c < 4294967296"
  shows "feed put (at r) cs = feed put (at r) cs'"
  using assms by (simp add: feed_is_spec)

end

end
