(* ===== verification/Parser_Example.thy ===== *)
theory Parser_Example
  imports Stream_Parser
begin

text \<open>
  \<open>parsers/ParserExample.h\<close> and \<open>.cpp\<close>: the datagram parser. Its state is the inherited buffer of
  bytes not parsed yet, the state of its machine, and the datagram under construction.

  The machine is modelled step by step (\<open>receiving_header\<close>, \<open>receiving_data\<close>,
  \<open>receiving_complete\<close>, and the loop \<open>parse_data\<close>, whose termination is proved). Then the stream
  specification \<open>deframe\<close> is defined without any machine, and the machine is proved to compute it.

  Layout: \<open>data_head\<close> has no padding on the modelled platform, 12 bytes, little-endian. In
  \<open>_receiving_header\<close> the expression \<open>sizeof(head)\<close> is the size of the pointer \<open>head\<close>, 8 bytes.
\<close>

subsection \<open>Headers\<close>

record data_head =
  dh_main_word :: u32
  dh_msg_type :: u16
  dh_msg_ver :: u16
  dh_size :: u16
  dh_reserv :: u16

definition MAIN_WORD :: u32 where
  "MAIN_WORD = 0xffffffff"

definition sizeof_data_head :: nat where
  "sizeof_data_head = 12"

definition sizeof_data_head_ptr :: nat where
  "sizeof_data_head_ptr = 8"

definition data_head_ctor :: data_head where
  "data_head_ctor =
     \<lparr>dh_main_word = MAIN_WORD, dh_msg_type = 0, dh_msg_ver = 0, dh_size = 0, dh_reserv = 0\<rparr>"

definition bytes_of_data_head :: "data_head \<Rightarrow> bytes" where
  "bytes_of_data_head h =
     le32_bytes (dh_main_word h) @ le16_bytes (dh_msg_type h) @ le16_bytes (dh_msg_ver h)
     @ le16_bytes (dh_size h) @ le16_bytes (dh_reserv h)"

definition data_head_of_bytes :: "bytes \<Rightarrow> data_head" where
  "data_head_of_bytes bs =
     \<lparr>dh_main_word = le32 (bs ! 0) (bs ! 1) (bs ! 2) (bs ! 3),
      dh_msg_type = le16 (bs ! 4) (bs ! 5), dh_msg_ver = le16 (bs ! 6) (bs ! 7),
      dh_size = le16 (bs ! 8) (bs ! 9), dh_reserv = le16 (bs ! 10) (bs ! 11)\<rparr>"

subsection \<open>The machine\<close>

datatype PARSER_EXAMPLE_STATE =
  STATE_NODATA | STATE_RECEIVING_HEADER | STATE_RECEIVING_DATA | STATE_RECEIVING_WAIT_NEW_DATA
  | STATE_RECEIVING_COMPLETE | STATE_ERROR

record parser_example = parser_base +
  pe_m_state :: PARSER_EXAMPLE_STATE
  pe_m_tmp_dg_buf :: bytes

definition ParserExample_ctor :: parser_example where
  "ParserExample_ctor =
     \<lparr>pb_m_parsing_buffer = [], pe_m_state = STATE_NODATA, pe_m_tmp_dg_buf = []\<rparr>"

definition receiving_header :: "parser_example \<Rightarrow> parser_example result" where
  "receiving_header p =
     (let buf = pb_m_parsing_buffer p
      in if buf = [] then Inl Invalid_Range
         else if hd buf \<noteq> le32_bytes MAIN_WORD ! 0 then Inr (p\<lparr>pe_m_state := STATE_ERROR\<rparr>)
         else if length buf < sizeof_data_head then Inl Invalid_Range
         else
           let p1 = p\<lparr>pe_m_tmp_dg_buf := take sizeof_data_head buf\<rparr>;
               head = data_head_of_bytes (pe_m_tmp_dg_buf p1)
           in if dh_main_word head \<noteq> MAIN_WORD \<or> unat (dh_size head) < sizeof_data_head_ptr
              then Inr (p1\<lparr>pe_m_state := STATE_ERROR\<rparr>)
              else Inr (p1\<lparr>pe_m_state := STATE_RECEIVING_DATA\<rparr>))"

text \<open>
  The bytes inserted are those between the positions \<open>m_tmp_dg_buf.size()\<close> and \<open>head->size\<close> of the
  buffer: an invalid range when the first lies beyond the second.
\<close>

definition receiving_data :: "parser_example \<Rightarrow> parser_example result" where
  "receiving_data p =
     (let buf = pb_m_parsing_buffer p; tmp = pe_m_tmp_dg_buf p
      in if length tmp < sizeof_data_head then Inl Bad_Memory
         else
           let n = unat (dh_size (data_head_of_bytes tmp))
           in if length buf < n then Inr (p\<lparr>pe_m_state := STATE_RECEIVING_WAIT_NEW_DATA\<rparr>)
              else if n < length tmp then Inl Invalid_Range
              else Inr (p\<lparr>pe_m_tmp_dg_buf := tmp @ take (n - length tmp) (drop (length tmp) buf),
                         pe_m_state := STATE_RECEIVING_COMPLETE\<rparr>))"

definition receiving_complete :: "parser_example \<Rightarrow> bytes list \<Rightarrow> (parser_example \<times> bytes list) result" where
  "receiving_complete p out =
     (let buf = pb_m_parsing_buffer p; tmp = pe_m_tmp_dg_buf p
      in if length buf < length tmp then Inl Invalid_Range
         else Inr (p\<lparr>pb_m_parsing_buffer := drop (length tmp) buf, pe_m_tmp_dg_buf := [],
                     pe_m_state := STATE_NODATA\<rparr>, out @ [tmp]))"

text \<open>
  The loop ends because every datagram and every error removes bytes from the buffer, and between
  two removals the machine runs through its states in a fixed order.
\<close>

fun state_rank :: "PARSER_EXAMPLE_STATE \<Rightarrow> bytes \<Rightarrow> nat" where
  "state_rank STATE_RECEIVING_COMPLETE tmp = (if tmp = [] then 5 else 0)"
| "state_rank STATE_NODATA tmp = 4"
| "state_rank STATE_RECEIVING_HEADER tmp = 3"
| "state_rank STATE_RECEIVING_DATA tmp = 2"
| "state_rank STATE_RECEIVING_WAIT_NEW_DATA tmp = 1"
| "state_rank STATE_ERROR tmp = 1"

function parse_data :: "parser_example \<Rightarrow> bytes list \<Rightarrow> (parser_example \<times> bytes list) result" where
  "parse_data p dgs =
     (if pb_m_parsing_buffer p = [] then Inr (p, dgs)
      else case pe_m_state p of
        STATE_NODATA \<Rightarrow>
          if length (pb_m_parsing_buffer p) \<ge> sizeof_data_head
          then parse_data (p\<lparr>pe_m_state := STATE_RECEIVING_HEADER\<rparr>) dgs
          else Inr (p, dgs)
      | STATE_RECEIVING_HEADER \<Rightarrow> rbind (receiving_header p) (\<lambda>p'. parse_data p' dgs)
      | STATE_RECEIVING_DATA \<Rightarrow> rbind (receiving_data p) (\<lambda>p'. parse_data p' dgs)
      | STATE_RECEIVING_WAIT_NEW_DATA \<Rightarrow> Inr (p\<lparr>pe_m_state := STATE_RECEIVING_DATA\<rparr>, dgs)
      | STATE_RECEIVING_COMPLETE \<Rightarrow>
          rbind (receiving_complete p dgs) (\<lambda>r. parse_data (fst r) (snd r))
      | STATE_ERROR \<Rightarrow>
          parse_data (p\<lparr>pe_m_tmp_dg_buf := [], pb_m_parsing_buffer := tl (pb_m_parsing_buffer p),
                        pe_m_state := STATE_NODATA\<rparr>) dgs)"
  by pat_completeness auto
termination
  by (relation "measures [\<lambda>(p, dgs). length (pb_m_parsing_buffer p),
        \<lambda>(p, dgs). state_rank (pe_m_state p) (pe_m_tmp_dg_buf p)]")
    (auto simp: receiving_header_def receiving_data_def receiving_complete_def sizeof_data_head_def
      Let_def split: if_splits)

declare parse_data.simps [simp del]

text \<open>
  \<open>put\<close>: the caller's vector is cleared, the bytes \<open>buf .. buf + data_size\<close> are appended to the
  buffer, and the loop runs.
\<close>

definition ParserExample_put ::
  "parser_example \<Rightarrow> bytes \<Rightarrow> u32 \<Rightarrow> bytes list \<Rightarrow> (u32 \<times> parser_example \<times> bytes list) result" where
  "ParserExample_put p buf n dgs =
     (if length buf < unat n then Inl Bad_Memory
      else rbind (parse_data (p\<lparr>pb_m_parsing_buffer := pb_m_parsing_buffer p @ take (unat n) buf\<rparr>) [])
             (\<lambda>(p', dgs'). Inr (word_of_nat (length dgs'), p', dgs')))"

text \<open>
  \<open>prepare_data_for_sending\<close>: a header and the payload, or nothing when the datagram would be longer
  than its 16-bit size field can say. The clock it reads is not used.
\<close>

definition prepare_data_for_sending :: "bytes \<Rightarrow> nat \<Rightarrow> bytes result" where
  "prepare_data_for_sending buf n =
     (if n > 65535 - sizeof_data_head then Inr []
      else if length buf < n then Inl Bad_Memory
      else
        let head = data_head_ctor\<lparr>dh_main_word := MAIN_WORD,
                     dh_size := word_of_nat (sizeof_data_head + n), dh_msg_type := 1, dh_msg_ver := 1\<rparr>;
            out = replicate sizeof_data_head 0 @ take n buf
        in Inr (bytes_of_data_head head @ drop sizeof_data_head out))"

subsection \<open>The stream specification\<close>

text \<open>
  \<open>head_ok bs\<close>: the first 12 bytes of \<open>bs\<close> pass the header check; \<open>head_size bs\<close> is their size
  field. \<open>deframe\<close> skips a byte where no header starts, stops where a datagram is incomplete, and
  faults at a header whose size is smaller than the header itself.
\<close>

definition head_size :: "bytes \<Rightarrow> nat" where
  "head_size bs = unat (dh_size (data_head_of_bytes bs))"

definition head_ok :: "bytes \<Rightarrow> bool" where
  "head_ok bs \<longleftrightarrow> dh_main_word (data_head_of_bytes bs) = MAIN_WORD \<and> 8 \<le> head_size bs"

function deframe :: "bytes \<Rightarrow> (bytes list \<times> bytes) result" where
  "deframe bs =
     (if length bs < 12 then Inr ([], bs)
      else if \<not> head_ok bs then deframe (tl bs)
      else if length bs < head_size bs then Inr ([], bs)
      else if head_size bs < 12 then Inl Invalid_Range
      else rbind (deframe (drop (head_size bs) bs)) (\<lambda>(ds, r). Inr (take (head_size bs) bs # ds, r)))"
  by pat_completeness auto
termination
  by (relation "measure length") auto

declare deframe.simps [simp del]

lemma deframe_short: "length bs < 12 \<Longrightarrow> deframe bs = Inr ([], bs)"
  by (subst deframe.simps) simp

lemma deframe_skip: "12 \<le> length bs \<Longrightarrow> \<not> head_ok bs \<Longrightarrow> deframe bs = deframe (tl bs)"
  by (subst deframe.simps) simp

lemma deframe_wait:
  "12 \<le> length bs \<Longrightarrow> head_ok bs \<Longrightarrow> length bs < head_size bs \<Longrightarrow> deframe bs = Inr ([], bs)"
  by (subst deframe.simps) simp

lemma deframe_fault:
  "12 \<le> length bs \<Longrightarrow> head_ok bs \<Longrightarrow> head_size bs < 12 \<Longrightarrow> deframe bs = Inl Invalid_Range"
  by (subst deframe.simps) simp

lemma deframe_cut:
  "head_ok bs \<Longrightarrow> head_size bs \<le> length bs \<Longrightarrow> 12 \<le> head_size bs \<Longrightarrow>
   deframe bs = rbind (deframe (drop (head_size bs) bs)) (\<lambda>(ds, r). Inr (take (head_size bs) bs # ds, r))"
  by (subst deframe.simps) simp

text \<open>The four situations of a stream.\<close>

lemma stream_cases:
  obtains (short) "length bs < 12"
  | (skip) "12 \<le> length bs" "\<not> head_ok bs"
  | (wait) "12 \<le> length bs" "head_ok bs" "length bs < head_size bs"
  | (bad) "12 \<le> length bs" "head_ok bs" "head_size bs \<le> length bs" "head_size bs < 12"
  | (cut) "12 \<le> length bs" "head_ok bs" "head_size bs \<le> length bs" "12 \<le> head_size bs"
  by (meson not_le)

lemma deframe_induct [case_names stream]:
  assumes "\<And>bs. (\<And>cs. length cs < length bs \<Longrightarrow> P cs) \<Longrightarrow> P bs"
  shows "P bs"
  using assms by (rule measure_induct_rule)

lemma head_prefix:
  assumes "12 \<le> length xs"
  shows "data_head_of_bytes (xs @ ys) = data_head_of_bytes xs"
    "head_ok (xs @ ys) = head_ok xs" "head_size (xs @ ys) = head_size xs"
    "data_head_of_bytes (take 12 xs) = data_head_of_bytes xs"
proof -
  have "xs \<noteq> []" and nth: "\<And>i. i < 12 \<Longrightarrow> (xs @ ys) ! i = xs ! i" using assms by (auto simp: nth_append)
  then show *: "data_head_of_bytes (xs @ ys) = data_head_of_bytes xs"
    using nth [of 0] by (simp add: data_head_of_bytes_def)
  show "data_head_of_bytes (take 12 xs) = data_head_of_bytes xs"
    using \<open>xs \<noteq> []\<close> by (simp add: data_head_of_bytes_def)
  show "head_ok (xs @ ys) = head_ok xs" "head_size (xs @ ys) = head_size xs"
    by (simp_all add: head_ok_def head_size_def *)
qed

lemma head_size_bound: "head_size bs < 65536"
  by (simp add: head_size_def)

text \<open>A header starts with the byte that the machine checks first.\<close>

lemma MAIN_WORD_le32: "MAIN_WORD = le32 255 255 255 255"
  by (simp add: MAIN_WORD_def le32_def)

lemma head_ok_bytes:
  "head_ok bs \<longleftrightarrow> bs ! 0 = 255 \<and> bs ! 1 = 255 \<and> bs ! 2 = 255 \<and> bs ! 3 = 255 \<and> 8 \<le> head_size bs"
  unfolding head_ok_def MAIN_WORD_le32 data_head_of_bytes_def
  by (auto dest: le32_inj)

lemma first_byte: "le32_bytes MAIN_WORD ! 0 = 255"
  by (simp add: le32_bytes_def MAIN_WORD_def)

subsection \<open>Facts of the specification\<close>

lemma deframe_append: "deframe (xs @ ys) = rbind (deframe xs) (\<lambda>p. seq_spec deframe p ys)"
proof (induction xs rule: deframe_induct)
  case (stream xs)
  show ?case
  proof (cases xs rule: stream_cases)
    case short
    then show ?thesis by (simp add: deframe_short seq_spec_def)
  next
    case skip
    then have "deframe (xs @ ys) = deframe (tl xs @ ys)"
      by (cases xs) (use head_prefix(2) [OF skip(1), of ys] in \<open>auto simp: deframe_skip\<close>)
    also have "\<dots> = rbind (deframe (tl xs)) (\<lambda>p. seq_spec deframe p ys)"
      by (rule stream) (use skip(1) in \<open>cases xs; simp\<close>)
    finally show ?thesis using skip by (simp add: deframe_skip)
  next
    case wait
    then show ?thesis by (simp add: deframe_wait seq_spec_def)
  next
    case bad
    then show ?thesis by (simp add: deframe_fault head_prefix)
  next
    case cut
    let ?n = "head_size xs"
    have "deframe (drop ?n xs @ ys) = rbind (deframe (drop ?n xs)) (\<lambda>p. seq_spec deframe p ys)"
      by (rule stream) (use cut in simp)
    then show ?thesis
      using cut
      by (simp add: deframe_cut head_prefix rbind_assoc seq_spec_def split_def)
  qed
qed

text \<open>
  What a successful pass over a stream returns: whole, well-formed datagrams, and a residue that
  contains no complete datagram and is shorter than the largest one.
\<close>

definition well_formed :: "bytes \<Rightarrow> bool" where
  "well_formed d \<longleftrightarrow> 12 \<le> length d \<and> head_ok d \<and> head_size d = length d"

lemma deframe_result:
  assumes "deframe bs = Inr (ds, r)"
  shows "deframe r = Inr ([], r) \<and> length r < 65536 \<and> (12 \<le> length r \<longrightarrow> head_ok r)
    \<and> list_all well_formed ds"
  using assms
proof (induction bs arbitrary: ds r rule: deframe_induct)
  case (stream bs)
  show ?case
  proof (cases bs rule: stream_cases)
    case short
    with stream.prems show ?thesis by (auto simp: deframe_short)
  next
    case skip
    with stream.prems have "deframe (tl bs) = Inr (ds, r)" by (simp add: deframe_skip)
    moreover have "length (tl bs) < length bs" using skip(1) by (cases bs) simp_all
    ultimately show ?thesis by (rule stream.IH [rotated])
  next
    case wait
    with stream.prems head_size_bound [of bs] show ?thesis by (auto simp: deframe_wait)
  next
    case bad
    with stream.prems show ?thesis by (simp add: deframe_fault)
  next
    case cut
    let ?n = "head_size bs"
    obtain es where es: "deframe (drop ?n bs) = Inr (es, r)" "ds = take ?n bs # es"
      using stream.prems cut by (auto simp: deframe_cut rbind_eq_Inr)
    have "data_head_of_bytes (take 12 (take ?n bs)) = data_head_of_bytes bs"
      using cut head_prefix(4) [of bs] by (simp add: min_def)
    then have "data_head_of_bytes (take ?n bs) = data_head_of_bytes bs"
      using cut head_prefix(4) [of "take ?n bs"] by simp
    then have "well_formed (take ?n bs)"
      using cut by (simp add: well_formed_def head_ok_def head_size_def)
    moreover have "length (drop ?n bs) < length bs" using cut by simp
    ultimately show ?thesis using stream.IH [OF _ es(1)] es(2) by simp
  qed
qed

text \<open>A stream that begins with a well-formed datagram, and one that begins with well-formed ones.\<close>

lemma deframe_Cons:
  assumes "well_formed d"
  shows "deframe (d @ bs) = rbind (deframe bs) (\<lambda>(ds, r). Inr (d # ds, r))"
  using assms deframe_cut [of "d @ bs"]
  by (simp add: well_formed_def head_prefix)

lemma deframe_concat:
  assumes "list_all well_formed ds"
  shows "deframe (concat ds @ bs) = rbind (deframe bs) (\<lambda>(es, r). Inr (ds @ es, r))"
  using assms
  by (induction ds) (auto simp: deframe_Cons rbind_assoc split_def)

text \<open>Bytes at which no header starts are skipped.\<close>

lemma deframe_garbage:
  assumes "12 \<le> length bs" and "\<forall>i < length g. \<not> head_ok (drop i g @ bs)"
  shows "deframe (g @ bs) = deframe bs"
  using assms(2)
proof (induction g)
  case Nil
  then show ?case by simp
next
  case (Cons x g)
  have "\<not> head_ok (x # g @ bs)" using Cons.prems by (force dest: spec [of _ 0])
  moreover have "\<forall>i < length g. \<not> head_ok (drop i g @ bs)"
    using Cons.prems by (force dest: spec [of _ "Suc _"])
  ultimately show ?case using Cons.IH assms(1) by (simp add: deframe_skip)
qed

lemma no_header_without_ff:
  assumes "(255 :: u8) \<notin> set g" and "i < length g"
  shows "\<not> head_ok (drop i g @ bs)"
proof -
  have "(drop i g @ bs) ! 0 = g ! i" using assms(2) by (simp add: nth_append)
  moreover have "g ! i \<noteq> 255" using assms nth_mem by metis
  ultimately show ?thesis by (simp add: head_ok_bytes)
qed

subsection \<open>The machine computes the specification\<close>

text \<open>
  Between two calls of \<open>put\<close> the state of the parser is determined by the bytes left over: with
  fewer bytes than a header it is idle, otherwise it waits for the rest of a datagram whose header it
  has copied.
\<close>

definition parser_at :: "bytes \<Rightarrow> parser_example" where
  "parser_at r =
     \<lparr>pb_m_parsing_buffer = r,
      pe_m_state = (if length r < 12 then STATE_NODATA else STATE_RECEIVING_DATA),
      pe_m_tmp_dg_buf = (if length r < 12 then [] else take 12 r)\<rparr>"

definition idle_at :: "bytes \<Rightarrow> parser_example" where
  "idle_at bs = \<lparr>pb_m_parsing_buffer = bs, pe_m_state = STATE_NODATA, pe_m_tmp_dg_buf = []\<rparr>"

definition data_at :: "bytes \<Rightarrow> parser_example" where
  "data_at bs =
     \<lparr>pb_m_parsing_buffer = bs, pe_m_state = STATE_RECEIVING_DATA, pe_m_tmp_dg_buf = take 12 bs\<rparr>"

lemma take_split: "m \<le> n \<Longrightarrow> take m xs @ take (n - m) (drop m xs) = take n xs"
  by (metis le_add_diff_inverse take_add)

lemma parse_data_short:
  "length bs < 12 \<Longrightarrow> parse_data (idle_at bs) dgs = Inr (parser_at bs, dgs)"
  by (subst parse_data.simps) (simp add: idle_at_def parser_at_def sizeof_data_head_def)

lemma parse_data_idle:
  assumes "12 \<le> length bs"
  shows "parse_data (idle_at bs) dgs =
    (if head_ok bs then parse_data (data_at bs) dgs else parse_data (idle_at (tl bs)) dgs)"
proof -
  let ?H = "idle_at bs\<lparr>pe_m_state := STATE_RECEIVING_HEADER\<rparr>"
  have ne: "bs \<noteq> []" using assms by auto
  have "parse_data (idle_at bs) dgs = parse_data ?H dgs"
    using assms ne by (subst parse_data.simps) (simp add: idle_at_def sizeof_data_head_def)
  also have "\<dots> = rbind (receiving_header ?H) (\<lambda>p'. parse_data p' dgs)"
    using ne by (subst parse_data.simps) (simp add: idle_at_def)
  finally have 1: "parse_data (idle_at bs) dgs = rbind (receiving_header ?H) (\<lambda>p'. parse_data p' dgs)" .
  have err: "parse_data (\<lparr>pb_m_parsing_buffer = bs, pe_m_state = STATE_ERROR, pe_m_tmp_dg_buf = t\<rparr>) dgs
      = parse_data (idle_at (tl bs)) dgs" for t
    using ne by (subst parse_data.simps) (simp add: idle_at_def)
  have "hd bs = bs ! 0" using ne by (simp add: hd_conv_nth)
  then have hd: "head_ok bs \<Longrightarrow> hd bs = 255" by (simp add: head_ok_bytes)
  show ?thesis
    unfolding 1 receiving_header_def
    using assms ne hd head_prefix(4) [OF assms] err
    by (auto simp: idle_at_def data_at_def Let_def first_byte sizeof_data_head_def
        sizeof_data_head_ptr_def head_ok_def head_size_def)
qed

lemma parse_data_data:
  assumes "12 \<le> length bs" and "head_ok bs"
  shows "parse_data (data_at bs) dgs =
    (if length bs < head_size bs then Inr (parser_at bs, dgs)
     else if head_size bs < 12 then Inl Invalid_Range
     else parse_data (idle_at (drop (head_size bs) bs)) (dgs @ [take (head_size bs) bs]))"
proof -
  let ?n = "head_size bs"
  have ne: "bs \<noteq> []" using assms by auto
  have 1: "parse_data (data_at bs) dgs = rbind (receiving_data (data_at bs)) (\<lambda>p'. parse_data p' dgs)"
    using ne by (subst parse_data.simps) (simp add: data_at_def)
  have wait: "parse_data (data_at bs\<lparr>pe_m_state := STATE_RECEIVING_WAIT_NEW_DATA\<rparr>) dgs = Inr (parser_at bs, dgs)"
    using ne assms by (subst parse_data.simps) (simp add: data_at_def parser_at_def)
  have complete: "parse_data \<lparr>pb_m_parsing_buffer = bs, pe_m_state = STATE_RECEIVING_COMPLETE,
      pe_m_tmp_dg_buf = take ?n bs\<rparr> dgs = parse_data (idle_at (drop ?n bs)) (dgs @ [take ?n bs])"
    if "?n \<le> length bs"
    using ne that by (subst parse_data.simps) (simp add: receiving_complete_def Let_def idle_at_def min_def)
  have size: "unat (dh_size (data_head_of_bytes (take 12 bs))) = ?n"
    using head_prefix(4) [OF assms(1)] by (simp add: head_size_def)
  show ?thesis
    unfolding 1 receiving_data_def
    using assms wait complete size
    by (auto simp: data_at_def Let_def sizeof_data_head_def take_split not_less min_def)
qed

lemma parse_data_spec:
  "parse_data (idle_at bs) dgs = rbind (deframe bs) (\<lambda>(ds, r). Inr (parser_at r, dgs @ ds))"
proof (induction bs arbitrary: dgs rule: deframe_induct)
  case (stream bs)
  show ?case
  proof (cases bs rule: stream_cases)
    case short
    then show ?thesis by (simp add: deframe_short parse_data_short)
  next
    case skip
    then have "length (tl bs) < length bs" by (cases bs) simp_all
    with skip show ?thesis by (simp add: deframe_skip parse_data_idle stream)
  next
    case wait
    then show ?thesis by (simp add: deframe_wait parse_data_idle parse_data_data)
  next
    case bad
    then show ?thesis by (simp add: deframe_fault parse_data_idle parse_data_data)
  next
    case cut
    then have "length (drop (head_size bs) bs) < length bs" by simp
    from stream [OF this] cut show ?thesis
      by (simp add: deframe_cut parse_data_idle parse_data_data rbind_assoc split_def)
  qed
qed

lemma parse_data_resume:
  assumes "deframe r = Inr ([], r)"
  shows "parse_data (parser_at r\<lparr>pb_m_parsing_buffer := r @ c\<rparr>) dgs = parse_data (idle_at (r @ c)) dgs"
proof (cases "length r < 12")
  case True
  then show ?thesis by (simp add: parser_at_def idle_at_def)
next
  case False
  then have long: "12 \<le> length r" by simp
  with deframe_result [OF assms] have "head_ok r" by blast
  with long show ?thesis
    using parse_data_idle [of "r @ c" dgs]
    by (simp add: head_prefix parser_at_def data_at_def)
qed

subsection \<open>The parser provides the strategy interface\<close>

lemma ParserExample_ctor_at: "ParserExample_ctor = parser_at []"
  by (simp add: ParserExample_ctor_def parser_at_def)

lemma ParserExample_put_at:
  assumes "deframe r = Inr ([], r)" and "unat n \<le> length buf"
  shows "ParserExample_put (parser_at r) buf n dgs =
    rbind (deframe (r @ take (unat n) buf)) (\<lambda>(ds, r'). Inr (word_of_nat (length ds), parser_at r', ds))"
proof -
  have "pb_m_parsing_buffer (parser_at r) = r" by (simp add: parser_at_def)
  then show ?thesis
    using assms(2)
    by (simp add: ParserExample_put_def parse_data_resume [OF assms(1)] parse_data_spec rbind_assoc
        split_def)
qed

text \<open>One call as its client sees it: a chunk in, the datagrams of the vector out.\<close>

definition put_chunk :: "parser_example \<Rightarrow> bytes \<Rightarrow> (bytes list \<times> parser_example) result" where
  "put_chunk p c =
     rbind (ParserExample_put p c (word_of_nat (length c)) []) (\<lambda>(n, p', ds). Inr (ds, p'))"

interpretation px: stream_parser put_chunk parser_at deframe
proof
  fix r c :: bytes
  assume "deframe r = Inr ([], r)" and "length c < 4294967296"
  then show "put_chunk (parser_at r) c = rbind (deframe (r @ c)) (\<lambda>(ds, r'). Inr (ds, parser_at r'))"
    by (simp add: put_chunk_def ParserExample_put_at unat_of_nat rbind_assoc split_def)
qed (use deframe_append deframe_result in blast)+

lemma deframe_Nil [simp]: "deframe [] = Inr ([], [])"
  by (simp add: deframe_short)

lemma feed_from_start:
  assumes "\<forall>c \<in> set cs. length c < 4294967296"
  shows "feed put_chunk ParserExample_ctor cs
    = rbind (deframe (concat cs)) (\<lambda>(ds, r). Inr (ds, parser_at r))"
  using px.feed_is_spec [of "[]" cs] assms by (simp add: ParserExample_ctor_at)

subsection \<open>Sent datagrams\<close>

lemma data_head_roundtrip: "data_head_of_bytes (bytes_of_data_head h @ bs) = h"
proof -
  have n4: "i < 4 \<Longrightarrow> (bytes_of_data_head h @ bs) ! i = le32_bytes (dh_main_word h) ! i" for i
    by (simp add: bytes_of_data_head_def nth_append)
  have n2: "(bytes_of_data_head h @ bs) ! 4 = le16_bytes (dh_msg_type h) ! 0"
    "(bytes_of_data_head h @ bs) ! 5 = le16_bytes (dh_msg_type h) ! 1"
    "(bytes_of_data_head h @ bs) ! 6 = le16_bytes (dh_msg_ver h) ! 0"
    "(bytes_of_data_head h @ bs) ! 7 = le16_bytes (dh_msg_ver h) ! 1"
    "(bytes_of_data_head h @ bs) ! 8 = le16_bytes (dh_size h) ! 0"
    "(bytes_of_data_head h @ bs) ! 9 = le16_bytes (dh_size h) ! 1"
    "(bytes_of_data_head h @ bs) ! 10 = le16_bytes (dh_reserv h) ! 0"
    "(bytes_of_data_head h @ bs) ! 11 = le16_bytes (dh_reserv h) ! 1"
    by (simp_all add: bytes_of_data_head_def nth_append)
  show ?thesis
    unfolding data_head_of_bytes_def n2 le16_of_bytes
    using n4 [of 0] n4 [of 1] n4 [of 2] n4 [of 3] le32_of_bytes [of "dh_main_word h"]
    by simp
qed

lemma length_bytes_of_data_head [simp]: "length (bytes_of_data_head h) = 12"
  by (simp add: bytes_of_data_head_def)

definition sent_head :: "nat \<Rightarrow> data_head" where
  "sent_head n =
     \<lparr>dh_main_word = MAIN_WORD, dh_msg_type = 1, dh_msg_ver = 1, dh_size = word_of_nat (12 + n),
      dh_reserv = 0\<rparr>"

lemma prepare_ok:
  assumes "n \<le> 65523" and "n \<le> length buf"
  shows "prepare_data_for_sending buf n = Inr (bytes_of_data_head (sent_head n) @ take n buf)"
  using assms
  by (simp add: prepare_data_for_sending_def sizeof_data_head_def Let_def data_head_ctor_def
      sent_head_def)

lemma sent_well_formed:
  assumes "length d \<le> 65523"
  shows "well_formed (bytes_of_data_head (sent_head (length d)) @ d)"
proof -
  have "unat (word_of_nat (12 + length d) :: u16) = 12 + length d"
    using assms by (simp add: unat_of_nat del: of_nat_add)
  then show ?thesis
    by (simp add: well_formed_def head_ok_def head_size_def data_head_roundtrip sent_head_def
        del: of_nat_add)
qed

definition sent :: "bytes \<Rightarrow> bytes" where
  "sent d = bytes_of_data_head (sent_head (length d)) @ d"

lemma sent_list_well_formed: "\<forall>d \<in> set ps. length d \<le> 65523 \<Longrightarrow> list_all well_formed (map sent ps)"
  by (auto simp: list_all_iff sent_def sent_well_formed)

subsection \<open>Properties\<close>

text \<open>
  C4. One \<open>put\<close> on a parser that holds the leftover bytes \<open>r\<close>: its loop ends, and the datagrams in
  the caller's vector, the returned count and the new state are those of the stream specification on
  \<open>r\<close> followed by the new bytes; the vector's old contents are dropped. The call faults exactly when
  the specification does.
\<close>

theorem ParserExample_put_computes_deframe:
  assumes "deframe r = Inr ([], r)" and "unat n \<le> length buf"
  shows "ParserExample_put (parser_at r) buf n dgs =
    rbind (deframe (r @ take (unat n) buf)) (\<lambda>(ds, r'). Inr (word_of_nat (length ds), parser_at r', ds))"
  by (rule ParserExample_put_at [OF assms])

theorem ParserExample_put_computes_deframe_witness:
  "ParserExample_put (parser_at [255, 255]) [255, 9, 9] 2 [[1], [2]] = Inr (0, parser_at [255, 255, 255, 9], [])"
  using ParserExample_put_computes_deframe [of "[255, 255]" 2 "[255, 9, 9]" "[[1], [2]]"]
  by (simp add: deframe_short)

text \<open>
  C16. How the stream is cut into chunks does not matter: feeding a fresh parser any sequence of
  chunks finds, over all calls, exactly the datagrams of the whole stream, and leaves the parser in
  the state that one call with the whole stream would leave it in.
\<close>

theorem ParserExample_chunking_irrelevant:
  assumes "\<forall>c \<in> set cs. length c < 4294967296" and "length (concat cs) < 4294967296"
  shows "feed put_chunk ParserExample_ctor cs = put_chunk ParserExample_ctor (concat cs)"
  using feed_from_start [OF assms(1)] feed_from_start [of "[concat cs]"] assms(2)
  by (simp add: split_def)

theorem ParserExample_chunking_irrelevant_witness:
  "feed put_chunk ParserExample_ctor [[1, 255], [], [255, 255, 255, 0]] = Inr ([], parser_at [1, 255, 255, 255, 255, 0])"
  using ParserExample_chunking_irrelevant [of "[[1, 255], [], [255, 255, 255, 0]]"]
    feed_from_start [of "[[1, 255, 255, 255, 255, 0]]"]
  by (simp add: deframe_short split_def)

text \<open>
  C14. Sender to receiver: payloads of at most 65523 bytes, framed one by one with
  \<open>prepare_data_for_sending\<close> and sent back to back, come out of a fresh parser as the same datagrams,
  in order, none missing and none added, whatever chunks the network delivers; dropping the 12 header
  bytes gives the payloads back, and nothing stays in the parser.
\<close>

theorem framing_roundtrip:
  assumes "\<forall>d \<in> set ps. length d \<le> 65523" and "\<forall>c \<in> set cs. length c < 4294967296"
    and "concat cs = concat fs" and "map (\<lambda>d. prepare_data_for_sending d (length d)) ps = map Inr fs"
  shows "feed put_chunk ParserExample_ctor cs = Inr (fs, ParserExample_ctor) \<and> map (drop 12) fs = ps"
proof -
  have "map (\<lambda>d. prepare_data_for_sending d (length d)) ps = map Inr (map sent ps)"
    using assms(1) by (simp add: prepare_ok sent_def)
  then have "map projr (map Inr fs :: bytes result list) = map projr (map Inr (map sent ps) :: bytes result list)"
    using assms(4) by simp
  then have fs: "fs = map sent ps" by (simp add: o_def)
  have "deframe (concat fs) = Inr (fs, [])"
    using deframe_concat [OF sent_list_well_formed [OF assms(1)], of "[]"] by (simp add: fs)
  then have "feed put_chunk ParserExample_ctor cs = Inr (fs, ParserExample_ctor)"
    using feed_from_start [OF assms(2)] assms(3) by (simp add: ParserExample_ctor_at)
  moreover have "map (drop 12) fs = ps" by (simp add: fs sent_def o_def)
  ultimately show ?thesis by simp
qed

theorem framing_roundtrip_witness:
  "feed put_chunk ParserExample_ctor [take 5 (sent [7, 8]), drop 5 (sent [7, 8]) @ sent []]
    = Inr ([sent [7, 8], sent []], ParserExample_ctor) \<and> map (drop 12) [sent [7, 8], sent []] = [[7, 8], []]"
  by (rule framing_roundtrip) (simp_all add: prepare_ok sent_def)

text \<open>
  C32. What a parser ever delivers and keeps: feeding a fresh parser any bytes in any chunks, if no
  call faults, every delivered datagram carries the magic word, is at least a header long and has
  exactly the length its size field says, so it fits the 16-bit sizes of the queues; and fewer than
  65536 bytes stay buffered.
\<close>

theorem delivered_datagrams_well_formed:
  assumes "\<forall>c \<in> set cs. length c < 4294967296"
    and "feed put_chunk ParserExample_ctor cs = Inr (ds, p)"
  shows "(\<forall>d \<in> set ds. 12 \<le> length d \<and> length d < 65536
      \<and> dh_main_word (data_head_of_bytes d) = MAIN_WORD \<and> unat (dh_size (data_head_of_bytes d)) = length d)
    \<and> length (pb_m_parsing_buffer p) < 65536"
proof -
  obtain r where r: "deframe (concat cs) = Inr (ds, r)" "p = parser_at r"
    using assms(2) feed_from_start [OF assms(1)] by (auto simp: rbind_eq_Inr)
  have "length d < 65536" if "well_formed d" for d
    using that head_size_bound [of d] by (simp add: well_formed_def)
  with deframe_result [OF r(1)] show ?thesis
    by (auto simp: list_all_iff r(2) parser_at_def) (auto simp: well_formed_def head_ok_def head_size_def)
qed

theorem delivered_datagrams_well_formed_witness:
  "length (pb_m_parsing_buffer (parser_at [])) < 65536 \<and> unat (dh_size (data_head_of_bytes (sent [7]))) = 13"
proof -
  have "deframe (sent [7]) = Inr ([sent [7]], [])"
    using deframe_Cons [OF sent_well_formed, of "[7]" "[]"] by (simp add: sent_def)
  then have "feed put_chunk ParserExample_ctor [sent [7]] = Inr ([sent [7]], parser_at [])"
    using feed_from_start [of "[sent [7]]"] by (simp add: sent_def)
  from delivered_datagrams_well_formed [OF _ this] show ?thesis by (simp add: sent_def)
qed

text \<open>
  Resynchronisation: bytes in front of a datagram at which no header starts (for instance bytes
  that contain no 0xFF) are skipped, and the datagrams behind them are found, whatever the chunks.
\<close>

theorem parser_resynchronises:
  assumes "list_all well_formed ds" and "ds \<noteq> []"
    and "\<forall>i < length g. \<not> head_ok (drop i g @ concat ds)"
    and "concat cs = g @ concat ds" and "\<forall>c \<in> set cs. length c < 4294967296"
  shows "feed put_chunk ParserExample_ctor cs = Inr (ds, ParserExample_ctor)"
proof -
  have "12 \<le> length (concat ds)"
    using assms(1,2) by (cases ds) (auto simp: well_formed_def)
  then have "deframe (concat cs) = deframe (concat ds)"
    using deframe_garbage assms(3,4) by simp
  also have "\<dots> = Inr (ds, [])" using deframe_concat [OF assms(1), of "[]"] by simp
  finally show ?thesis
    using feed_from_start [OF assms(5)] by (simp add: ParserExample_ctor_at)
qed

theorem parser_resynchronises_witness:
  "feed put_chunk ParserExample_ctor [[0, 1, 2], [3, 4, 5, 6, 7, 8, 9] @ sent [5]] = Inr ([sent [5]], ParserExample_ctor)"
proof -
  have "\<forall>i < length [0 :: u8, 1, 2, 3, 4, 5, 6, 7, 8, 9].
      \<not> head_ok (drop i [0, 1, 2, 3, 4, 5, 6, 7, 8, 9] @ concat [sent [5]])"
    by (intro allI impI no_header_without_ff) simp
  then show ?thesis
    using parser_resynchronises [of "[sent [5]]" "[0, 1, 2, 3, 4, 5, 6, 7, 8, 9]"
        "[[0, 1, 2], [3, 4, 5, 6, 7, 8, 9] @ sent [5]]"] sent_list_well_formed [of "[[5]]"]
    by (simp add: sent_def)
qed

text \<open>
  C33. A header whose size field says 8, 9, 10 or 11 passes the check, which compares the size with
  the size of a pointer, and then makes the parser insert a range whose end lies before its start:
  the call that completes those 12 bytes faults, after any datagrams and in any chunks.
\<close>

theorem undersized_header_faults:
  assumes "list_all well_formed ds" and "length h = 12"
    and "dh_main_word (data_head_of_bytes h) = MAIN_WORD"
    and "8 \<le> unat (dh_size (data_head_of_bytes h))" and "unat (dh_size (data_head_of_bytes h)) < 12"
    and "concat cs = concat ds @ h @ rest" and "\<forall>c \<in> set cs. length c < 4294967296"
  shows "feed put_chunk ParserExample_ctor cs = Inl Invalid_Range"
proof -
  have "head_ok (h @ rest)" "head_size (h @ rest) < 12"
    using assms(2-5) by (simp_all add: head_prefix head_ok_def head_size_def)
  then have "deframe (h @ rest) = Inl Invalid_Range"
    using assms(2) by (simp add: deframe_fault)
  then show ?thesis
    using feed_from_start [OF assms(7)] deframe_concat [OF assms(1), of "h @ rest"] assms(6) by simp
qed

theorem undersized_header_faults_witness:
  "feed put_chunk ParserExample_ctor [[255, 255, 255], [255, 1, 0, 1, 0, 8, 0, 0], [0]] = Inl Invalid_Range"
  by (rule undersized_header_faults [of "[]" "[255, 255, 255, 255, 1, 0, 1, 0, 8, 0, 0, 0]" _ "[]"])
    (simp_all add: data_head_of_bytes_def le32_def le16_def MAIN_WORD_def)

text \<open>
  \<open>prepare_data_for_sending\<close> on every branch: a payload of more than 65523 bytes gives an empty
  datagram; any other gives 12 header bytes that read back as magic word, type 1, version 1, the
  total length and reserved 0, followed by the payload.
\<close>

theorem prepare_data_for_sending_behaviour:
  assumes "n \<le> length buf"
  shows "\<exists>out. prepare_data_for_sending buf n = Inr out \<and>
    (if 65523 < n then out = []
     else length out = 12 + n \<and> drop 12 out = take n buf \<and>
       data_head_of_bytes out =
         \<lparr>dh_main_word = 0xffffffff, dh_msg_type = 1, dh_msg_ver = 1, dh_size = word_of_nat (length out),
          dh_reserv = 0\<rparr> \<and> unat (dh_size (data_head_of_bytes out)) = length out)"
proof (cases "65523 < n")
  case True
  then show ?thesis by (simp add: prepare_data_for_sending_def sizeof_data_head_def)
next
  case False
  with assms have "unat (word_of_nat (12 + n) :: u16) = 12 + n"
    by (simp add: unat_of_nat del: of_nat_add)
  with False assms show ?thesis
    by (simp add: prepare_ok data_head_roundtrip sent_head_def MAIN_WORD_def min_def del: of_nat_add)
qed

theorem prepare_data_for_sending_behaviour_witness:
  "\<exists>out. prepare_data_for_sending [1, 2, 3] 2 = Inr out \<and> length out = 14 \<and> drop 12 out = [1, 2]"
  using prepare_data_for_sending_behaviour [of 2 "[1, 2, 3]"] by auto

end
