(* ===== verification/Sized_Array.thy ===== *)
theory Sized_Array
  imports Shovel_Prelude
begin

text \<open>
  \<open>containers/SizedArray.h\<close>: a fixed-size array that also remembers how many of its elements are
  real data. The template parameter \<open>Nm\<close> is the length of \<open>sa_elems\<close>, which no operation changes.
\<close>

record 'a sized_array =
  sa_elems :: "'a list"
  sa_m_data_size :: nat

definition SizedArray_make :: "'a list \<Rightarrow> 'a sized_array" where
  "SizedArray_make xs = \<lparr>sa_elems = xs, sa_m_data_size = 0\<rparr>"

definition SizedArray_size :: "'a sized_array \<Rightarrow> nat" where
  "SizedArray_size a = length (sa_elems a)"

definition SizedArray_data_size :: "'a sized_array \<Rightarrow> nat" where
  "SizedArray_data_size a = sa_m_data_size a"

definition SizedArray_resize :: "'a sized_array \<Rightarrow> nat \<Rightarrow> 'a sized_array" where
  "SizedArray_resize a n =
     (if n < SizedArray_size a then a\<lparr>sa_m_data_size := n\<rparr>
      else a\<lparr>sa_m_data_size := SizedArray_size a\<rparr>)"

definition SizedArray_clear :: "'a sized_array \<Rightarrow> 'a sized_array" where
  "SizedArray_clear a = a\<lparr>sa_m_data_size := 0\<rparr>"

declare SizedArray_size_def [op_defs] SizedArray_data_size_def [op_defs]
  SizedArray_resize_def [op_defs] SizedArray_clear_def [op_defs]

text \<open>The real data of an array, and the copy of \<open>xs\<close> to its front that the socket classes make.\<close>

definition sa_data :: "'a sized_array \<Rightarrow> 'a list" where
  "sa_data a = take (sa_m_data_size a) (sa_elems a)"

definition copy_to_front :: "'a list \<Rightarrow> 'a sized_array \<Rightarrow> 'a sized_array result" where
  "copy_to_front xs a =
     (if length xs \<le> SizedArray_size a
      then Inr (a\<lparr>sa_elems := xs @ drop (length xs) (sa_elems a)\<rparr>) else Inl Bad_Memory)"

definition sa_ok :: "'a sized_array \<Rightarrow> bool" where
  "sa_ok a \<longleftrightarrow> sa_m_data_size a \<le> SizedArray_size a"

lemma sa_ok_ops [simp]:
  "sa_ok (SizedArray_resize a n)" "sa_ok (SizedArray_clear a)" "sa_ok (SizedArray_make xs)"
  by (simp_all add: sa_ok_def op_defs SizedArray_make_def)

lemma sa_size_ops [simp]:
  "SizedArray_size (SizedArray_resize a n) = SizedArray_size a"
  "SizedArray_size (SizedArray_clear a) = SizedArray_size a"
  "copy_to_front xs a = Inr a' \<Longrightarrow> SizedArray_size a' = SizedArray_size a"
  by (auto simp: op_defs copy_to_front_def split: if_splits)

lemma SizedArray_size_make [simp]: "SizedArray_size (SizedArray_make xs) = length xs"
  by (simp add: op_defs SizedArray_make_def)

lemma sa_data_clear [simp]: "sa_data (SizedArray_clear a) = []"
  by (simp add: sa_data_def op_defs)

lemma length_sa_data: "sa_ok a \<Longrightarrow> length (sa_data a) = SizedArray_data_size a"
  by (simp add: sa_data_def sa_ok_def op_defs)

lemma copy_then_resize:
  assumes "length xs \<le> SizedArray_size a"
  shows "\<exists>a'. copy_to_front xs a = Inr a' \<and> sa_data (SizedArray_resize a' (length xs)) = xs"
  using assms by (auto simp: copy_to_front_def op_defs sa_data_def)

end
