(* ===== verification/Os_Model.thy ===== *)
theory Os_Model
  imports Sized_Array
begin

text \<open>
  What the socket classes see of the operating system. A system call is not modelled; its answer is
  an argument of the operation that makes the call, and what the operation asks the kernel to do is
  recorded as an event in the operation's result. A loop of system calls takes the list of the
  kernel's answers and consumes one per call; when the list ends, the thread is still in the call.

  \<open>EWOULDBLOCK\<close> is \<open>EAGAIN\<close> on the modelled platform.
\<close>

datatype errno = EAGAIN | EINTR | ENOBUFS | ENOENT | ECONNREFUSED | EOTHER nat

abbreviation EWOULDBLOCK :: errno where
  "EWOULDBLOCK \<equiv> EAGAIN"

text \<open>Answers: the bytes \<open>recv\<close> or \<open>recvfrom\<close> stored, the count \<open>send\<close> or \<open>sendto\<close> took.\<close>

datatype recv_answer = Received bytes | Recv_error errno

datatype send_answer = Sent nat | Send_error errno

text \<open>The arguments of \<open>setsockopt\<close> the program uses.\<close>

datatype opt_level = SOL_SOCKET | SOL_TCP

datatype opt_name =
  SO_REUSEADDR | SO_RCVBUF | SO_SNDBUF | SO_KEEPALIVE | SO_RCVTIMEO | SO_SNDTIMEO
  | TCP_KEEPIDLE | TCP_KEEPCNT | TCP_KEEPINTVL | TCP_USER_TIMEOUT | TCP_NODELAY | TCP_QUICKACK

datatype opt_value = Opt_int u32 | Opt_timeval nat nat

type_synonym opt_triple = "opt_level \<times> opt_name \<times> opt_value"

text \<open>What \<open>setsockopt\<close> returns for each option; an operation sets an option at most once.\<close>

type_synonym option_answers = "opt_name \<Rightarrow> int"

text \<open>
  Requests to the kernel, and the descriptors it gives out (\<open>Ev_Socket\<close>, \<open>Ev_Accept\<close>). \<open>Ev_Set_Option\<close>
  is recorded when the option is asked for, whatever the answer.
\<close>

datatype os_event =
  Ev_Socket int | Ev_Accept int | Ev_Close int | Ev_Shutdown int | Ev_Unlink string | Ev_Send int bytes
  | Ev_Set_Option int opt_triple | Ev_Set_Flags int u32 | Ev_Bind int u16 u32 | Ev_Listen int nat
  | Ev_Connect int u16 u32 | Ev_Sleep nat

text \<open>
  The bytes put on the wire of a descriptor, how often \<open>socket\<close> and \<open>accept\<close> gave it out and how
  often it was closed.
\<close>

fun wire :: "int \<Rightarrow> os_event list \<Rightarrow> bytes" where
  "wire d [] = []"
| "wire d (Ev_Send d' bs # es) = (if d' = d then bs @ wire d es else wire d es)"
| "wire d (_ # es) = wire d es"

definition closes :: "int \<Rightarrow> os_event list \<Rightarrow> nat" where
  "closes d es = count_list es (Ev_Close d)"

definition opens :: "int \<Rightarrow> os_event list \<Rightarrow> nat" where
  "opens d es = count_list es (Ev_Socket d)"

definition accepts :: "int \<Rightarrow> os_event list \<Rightarrow> nat" where
  "accepts d es = count_list es (Ev_Accept d)"

lemma wire_append [simp]: "wire d (es @ fs) = wire d es @ wire d fs"
  by (induction es rule: wire.induct) simp_all

lemma closes_simps [simp]:
  "closes d [] = 0" "closes d (e # es) = (if e = Ev_Close d then Suc (closes d es) else closes d es)"
  "closes d (es @ fs) = closes d es + closes d fs"
  by (auto simp: closes_def)

lemma opens_simps [simp]:
  "opens d [] = 0"
  "opens d (e # es) = (if e = Ev_Socket d then Suc (opens d es) else opens d es)"
  "opens d (es @ fs) = opens d es + opens d fs"
  by (auto simp: opens_def)

lemma accepts_simps [simp]:
  "accepts d [] = 0"
  "accepts d (e # es) = (if e = Ev_Accept d then Suc (accepts d es) else accepts d es)"
  "accepts d (es @ fs) = accepts d es + accepts d fs"
  by (auto simp: accepts_def)

text \<open>
  The loop over a table of options, as both ends of a connection write it: the options are set in
  order until one is refused.
\<close>

fun set_options :: "int \<Rightarrow> opt_triple list \<Rightarrow> option_answers \<Rightarrow> bool \<times> os_event list" where
  "set_options s [] ans = (True, [])"
| "set_options s ((l, n, v) # os) ans =
     (if ans n < 0 then (False, [Ev_Set_Option s (l, n, v)])
      else case set_options s os ans of (ok, es) \<Rightarrow> (ok, Ev_Set_Option s (l, n, v) # es))"

lemma set_options_spec:
  "set_options s os ans =
     (list_all (\<lambda>(l, n, v). ans n \<ge> 0) os,
      map (Ev_Set_Option s) (takeWhile (\<lambda>(l, n, v). ans n \<ge> 0) os
        @ take 1 (dropWhile (\<lambda>(l, n, v). ans n \<ge> 0) os)))"
  by (induction os) auto

lemma set_options_ok:
  "set_options s os ans = (ok, es) \<Longrightarrow> ok = list_all (\<lambda>(l, n, v). ans n \<ge> 0) os"
  by (simp add: set_options_spec)

lemma set_options_quiet [simp]:
  assumes "set_options s os ans = (ok, es)"
  shows "closes d es = 0" and "opens d es = 0" and "accepts d es = 0"
proof -
  have "\<forall>e \<in> set es. \<exists>x. e = Ev_Set_Option s x"
    using assms unfolding set_options_spec by auto
  then show "closes d es = 0" "opens d es = 0" "accepts d es = 0"
    by (auto simp: closes_def opens_def accepts_def count_list_0_iff)
qed

text \<open>Network byte order on a little-endian machine.\<close>

definition htons :: "u16 \<Rightarrow> u16" where
  "htons w = word_of_nat (unat w div 256 + 256 * (unat w mod 256))"

lemma unat_htons: "unat (htons w) = unat w div 256 + 256 * (unat w mod 256)"
proof -
  have "unat w div 256 < 256" using unat_u16_less [of w] by linarith
  moreover have "unat w mod 256 < 256" by simp
  ultimately have "unat w div 256 + 256 * (unat w mod 256) < 65536" by linarith
  then show ?thesis by (simp add: htons_def unat_of_nat del: of_nat_add of_nat_mult)
qed

lemma htons_htons [simp]: "htons (htons w) = w"
proof -
  have "unat w div 256 < 256" using unat_u16_less [of w] by linarith
  then have "unat (htons (htons w)) = unat w" by (simp add: unat_htons)
  then show ?thesis by (simp only: word_unat_eq_iff)
qed

end
