(* ===== verification/Connection_Worker.thy ===== *)
theory Connection_Worker
  imports Queue_Decorators Parser_Example Os_Model
begin

text \<open>
  \<open>connections/workers/ConnectionWorker.h\<close> and \<open>.cpp\<close>: a worker moves data between a source (a
  socket) and two queues. One thread reads from the source, cuts the bytes into datagrams and puts
  them into the reading queue; another takes items from the writing queue and writes them to the
  source; a guard waits for both.

  Each thread is a machine with a program counter. A step is one access to shared state: one call on a
  queue or on the source, or one test of the flags. The flags change in one direction only while the
  threads run, so a test that reads two of them one after the other gives the result of a single test
  at the time of the first read that decides it. A call that blocks is a step that is not enabled.
  The calls on a queue are taken as atomic. Console messages, sleeps and the unused byte counters are
  left out.
\<close>

subsection \<open>Data\<close>

record connection_statistics =
  total_sent_bytes :: u64
  total_recv_bytes :: u64
  chunk_sent_bytes :: u64
  chunk_recv_bytes :: u64
  last_check_time_msec :: u64

definition statistics_zero :: connection_statistics where
  "statistics_zero = \<lparr>total_sent_bytes = 0, total_recv_bytes = 0, chunk_sent_bytes = 0,
     chunk_recv_bytes = 0, last_check_time_msec = 0\<rparr>"

definition add_sent :: "u64 \<Rightarrow> connection_statistics \<Rightarrow> connection_statistics" where
  "add_sent count st = st\<lparr>total_sent_bytes := total_sent_bytes st + count,
     chunk_sent_bytes := chunk_sent_bytes st + count\<rparr>"

definition add_recv :: "u64 \<Rightarrow> connection_statistics \<Rightarrow> connection_statistics" where
  "add_recv count st = st\<lparr>total_recv_bytes := total_recv_bytes st + count,
     chunk_recv_bytes := chunk_recv_bytes st + count\<rparr>"

text \<open>The parser strategy behind \<open>m_parser\<close>, with its virtual \<open>put\<close>.\<close>

datatype parser_obj = Obj_ParserBase parser_base | Obj_ParserExample parser_example

fun parser_obj_put ::
  "parser_obj \<Rightarrow> bytes \<Rightarrow> u32 \<Rightarrow> bytes list \<Rightarrow> (u32 \<times> parser_obj \<times> bytes list) result" where
  "parser_obj_put (Obj_ParserBase p) buf n dgs =
     rbind (ParserBase_put p buf n dgs) (\<lambda>(r, p', dgs'). Inr (r, Obj_ParserBase p', dgs'))"
| "parser_obj_put (Obj_ParserExample p) buf n dgs =
     rbind (ParserExample_put p buf n dgs) (\<lambda>(r, p', dgs'). Inr (r, Obj_ParserExample p', dgs'))"

text \<open>The callback of the guard: the default one prints a message; the user's may delete the worker.\<close>

datatype postmortem_callback = Postmortem_default | Postmortem_user

record connection_worker =
  cw_m_queue_for_reading :: "queue_obj option"
  cw_m_queue_for_writing :: "queue_obj option"
  cw_m_parser :: "parser_obj option"
  cw_m_postmortem_callback :: postmortem_callback
  cw_m_read_thread_alive :: bool
  cw_m_write_thread_alive :: bool
  cw_m_stop_asked :: bool
  cw_m_stopped :: bool
  cw_t_guard_joinable :: bool
  cw_m_worker_id :: u64
  cw_m_dg_vector_for_parser :: "bytes list"
  cw_m_statistics :: connection_statistics

definition connection_worker_arr_size :: nat where
  "connection_worker_arr_size = 65535"

text \<open>The constructor takes the next worker id; \<open>counter\<close> is \<open>m_total_worker_id_counter\<close>.\<close>

definition ConnectionWorker_ctor ::
  "queue_obj option \<Rightarrow> queue_obj option \<Rightarrow> u64 \<Rightarrow> connection_worker \<times> u64" where
  "ConnectionWorker_ctor queue_for_reading queue_for_writing counter =
     (\<lparr>cw_m_queue_for_reading = queue_for_reading, cw_m_queue_for_writing = queue_for_writing,
       cw_m_parser = None, cw_m_postmortem_callback = Postmortem_default, cw_m_read_thread_alive = False, cw_m_write_thread_alive = False,
       cw_m_stop_asked = False, cw_m_stopped = False, cw_t_guard_joinable = False,
       cw_m_worker_id = counter, cw_m_dg_vector_for_parser = [], cw_m_statistics = statistics_zero\<rparr>,
      counter + 1)"

definition ConnectionWorker_set_parser :: "parser_obj option \<Rightarrow> connection_worker \<Rightarrow> connection_worker" where
  "ConnectionWorker_set_parser parser w = w\<lparr>cw_m_parser := parser\<rparr>"

definition ConnectionWorker_set_postmortem_callback ::
  "postmortem_callback \<Rightarrow> connection_worker \<Rightarrow> connection_worker" where
  "ConnectionWorker_set_postmortem_callback cb w = w\<lparr>cw_m_postmortem_callback := cb\<rparr>"

text \<open>The accessors of the header file.\<close>

definition ConnectionWorker_get_queue_for_reading_data_from_source :: "connection_worker \<Rightarrow> queue_obj option" where
  "ConnectionWorker_get_queue_for_reading_data_from_source w = cw_m_queue_for_reading w"

definition ConnectionWorker_get_queue_for_writing_data_to_source :: "connection_worker \<Rightarrow> queue_obj option" where
  "ConnectionWorker_get_queue_for_writing_data_to_source w = cw_m_queue_for_writing w"

definition ConnectionWorker_set_queue_for_writing_data_to_source ::
  "queue_obj option \<Rightarrow> connection_worker \<Rightarrow> connection_worker" where
  "ConnectionWorker_set_queue_for_writing_data_to_source pg w = w\<lparr>cw_m_queue_for_writing := pg\<rparr>"

definition ConnectionWorker_is_stopped :: "connection_worker \<Rightarrow> bool" where
  "ConnectionWorker_is_stopped w = cw_m_stopped w"

definition ConnectionWorker_id :: "connection_worker \<Rightarrow> u64" where
  "ConnectionWorker_id w = cw_m_worker_id w"

definition ConnectionWorker_stop :: "connection_worker \<Rightarrow> connection_worker" where
  "ConnectionWorker_stop w = w\<lparr>cw_m_stop_asked := True\<rparr>"

text \<open>
  \<open>start\<close> is \<open>run\<close>. Assigning a new thread to \<open>t_guard\<close> while it is joinable terminates the program.
\<close>

definition ConnectionWorker_run :: "connection_worker \<Rightarrow> connection_worker result" where
  "ConnectionWorker_run w =
     (let w1 = w\<lparr>cw_m_read_thread_alive := True, cw_m_write_thread_alive := True, cw_m_stop_asked := False\<rparr>
      in if cw_t_guard_joinable w1 then Inl Terminated else Inr (w1\<lparr>cw_t_guard_joinable := True\<rparr>))"

definition get_connection_statistics ::
  "u64 \<Rightarrow> connection_worker \<Rightarrow> connection_statistics \<times> connection_worker" where
  "get_connection_statistics req_time w =
     (cw_m_statistics w,
      w\<lparr>cw_m_statistics := (cw_m_statistics w)
          \<lparr>last_check_time_msec := req_time, chunk_sent_bytes := 0, chunk_recv_bytes := 0\<rparr>\<rparr>)"

text \<open>
  The destructor: it asks the threads to stop, then joins the guard thread, or detaches it when it
  runs in it; the result says whether it waits for the guard.
\<close>

definition ConnectionWorker_dtor :: "bool \<Rightarrow> connection_worker \<Rightarrow> bool \<times> connection_worker" where
  "ConnectionWorker_dtor in_guard_thread w =
     (let w1 = ConnectionWorker_stop w
      in if cw_t_guard_joinable w1
         then (\<not> in_guard_thread, w1\<lparr>cw_t_guard_joinable := False\<rparr>) else (False, w1))"

subsection \<open>The source\<close>

text \<open>
  The two virtual operations of a worker, as functions of its source, the array and the answers of the
  kernel to that call. They return the status, the source, the array and the events.
\<close>

type_synonym 's source_result = "(int \<times> 's \<times> u8 sized_array \<times> os_event list) result"

record ('s, 'ra, 'wa) source_ops =
  so_read :: "'s \<Rightarrow> u8 sized_array \<Rightarrow> 'ra \<Rightarrow> 's source_result"
  so_write :: "'s \<Rightarrow> u8 sized_array \<Rightarrow> 'wa \<Rightarrow> 's source_result"

text \<open>The operations of the base class, for a worker without a source.\<close>

definition base_source :: "(unit, unit, unit) source_ops" where
  "base_source =
     \<lparr>so_read = (\<lambda>s buf a. Inr (0, s, SizedArray_clear buf, [])),
      so_write = (\<lambda>s buf a. Inr (0, s, SizedArray_clear buf, []))\<rparr>"

subsection \<open>The threads\<close>

text \<open>
  Program counters. \<open>R_For\<close> and \<open>R_Next\<close> hold the datagrams the \<open>for\<close> loop has not reached, \<open>R_Put\<close>
  and \<open>R_After\<close> also the one it is at.
\<close>

datatype read_pc =
  R_While | R_Read | R_Check int | R_For "bytes list" | R_Put bytes "bytes list"
  | R_After u16 bytes "bytes list" | R_Next "bytes list" | R_Exit | R_Done

datatype write_pc = W_While | W_Peek | W_Check u16 | W_Write | W_Get int | W_Exit | W_Done

text \<open>
  What a run of the worker does, as its users see it: the bytes read, the datagrams put into and taken
  from the reading queue, the items put into the writing queue and those written; the requests to the
  kernel that a call on the source made; and the call of the postmortem callback.
\<close>

datatype worker_event =
  E_Received bytes | E_Queued bytes | E_Consumed bytes | E_Produced bytes | E_Written bytes
  | E_Os "os_event list" | E_Postmortem postmortem_callback

definition os_events :: "os_event list \<Rightarrow> worker_event list" where
  "os_events es = (if es = [] then [] else [E_Os es])"

record 's worker_run =
  wr_worker :: connection_worker
  wr_source :: 's
  wr_rpc :: read_pc
  wr_rarr :: "u8 sized_array"
  wr_wpc :: write_pc
  wr_warr :: "u8 sized_array"

definition reader_leaves :: "connection_worker \<Rightarrow> bool" where
  "reader_leaves w \<longleftrightarrow> \<not> cw_m_write_thread_alive w \<or> cw_m_stop_asked w"

definition writer_leaves :: "connection_worker \<Rightarrow> bool" where
  "writer_leaves w \<longleftrightarrow> \<not> cw_m_read_thread_alive w \<or> cw_m_stop_asked w"

text \<open>A \<open>put\<close> on the reading queue: its status and the event when the item was stored.\<close>

definition put_reading ::
  "connection_worker \<Rightarrow> bytes \<Rightarrow> u16 \<Rightarrow> (u16 \<times> connection_worker \<times> worker_event list) result" where
  "put_reading w buf n =
     (case cw_m_queue_for_reading w of None \<Rightarrow> Inl Null_Pointer
      | Some q \<Rightarrow> rbind (deco_put [] q buf n) (\<lambda>(put_status, q').
          Inr (put_status, w\<lparr>cw_m_queue_for_reading := Some q'\<rparr>,
               if deco_get_status q' = STATUS_QUEUEBASE_OK then [E_Queued (take (unat n) buf)] else [])))"

definition thread_read_from_source ::
  "('s, 'ra, 'wa) source_ops \<Rightarrow> 's worker_run \<Rightarrow> 'ra \<Rightarrow> ('s worker_run \<times> worker_event list) result" where
  "thread_read_from_source ops st ans =
     (let w = wr_worker st; arr = wr_rarr st in
      case wr_rpc st of
        R_While \<Rightarrow>
          if cw_m_queue_for_reading w \<noteq> None \<and> \<not> reader_leaves w then Inr (st\<lparr>wr_rpc := R_Read\<rparr>, [])
          else Inr (st\<lparr>wr_rpc := R_Exit\<rparr>, [])
      | R_Read \<Rightarrow>
          rbind (so_read ops (wr_source st) arr ans) (\<lambda>(read_status, s', arr', es).
            Inr (st\<lparr>wr_source := s', wr_rarr := arr', wr_rpc := R_Check read_status\<rparr>,
                 os_events es @ (if read_status > 0 then [E_Received (sa_data arr')] else [])))
      | R_Check read_status \<Rightarrow>
          if read_status < 0 \<or> reader_leaves w then Inr (st\<lparr>wr_rpc := R_Exit\<rparr>, [])
          else if read_status = 0 then Inr (st\<lparr>wr_rpc := R_While\<rparr>, [])
          else
            let w1 = w\<lparr>cw_m_statistics := add_recv (word_of_int read_status) (cw_m_statistics w)\<rparr>
            in (case cw_m_parser w1 of
                 Some p \<Rightarrow>
                   rbind (parser_obj_put p (sa_elems arr) (word_of_nat (SizedArray_data_size arr))
                            (cw_m_dg_vector_for_parser w1)) (\<lambda>(res, p', dgs).
                     Inr (st\<lparr>wr_worker := w1\<lparr>cw_m_parser := Some p', cw_m_dg_vector_for_parser := dgs\<rparr>,
                             wr_rpc := R_For dgs\<rparr>, []))
               | None \<Rightarrow>
                   rbind (put_reading w1 (sa_elems arr) (word_of_nat (SizedArray_data_size arr)))
                     (\<lambda>(put_status, w2, es). Inr (st\<lparr>wr_worker := w2, wr_rpc := R_While\<rparr>, es)))
      | R_For dgs \<Rightarrow>
          (case dgs of [] \<Rightarrow> Inr (st\<lparr>wr_rpc := R_While\<rparr>, [])
           | kg # rest \<Rightarrow> Inr (st\<lparr>wr_rpc := R_Put kg rest\<rparr>, []))
      | R_Put kg rest \<Rightarrow>
          rbind (put_reading w kg (word_of_nat (length kg))) (\<lambda>(put_status, w1, es).
            Inr (st\<lparr>wr_worker := w1, wr_rpc := R_After put_status kg rest\<rparr>, es))
      | R_After put_status kg rest \<Rightarrow>
          if reader_leaves w then Inr (st\<lparr>wr_rpc := R_Next rest\<rparr>, [])
          else if put_status \<le> 0 then Inr (st\<lparr>wr_rpc := R_Put kg rest\<rparr>, [])
          else Inr (st\<lparr>wr_rpc := R_Next rest\<rparr>, [])
      | R_Next rest \<Rightarrow>
          if reader_leaves w then Inr (st\<lparr>wr_rpc := R_While\<rparr>, []) else Inr (st\<lparr>wr_rpc := R_For rest\<rparr>, [])
      | R_Exit \<Rightarrow> Inr (st\<lparr>wr_worker := w\<lparr>cw_m_read_thread_alive := False\<rparr>, wr_rpc := R_Done\<rparr>, [])
      | R_Done \<Rightarrow> Inl Blocked)"

definition thread_write_to_source ::
  "('s, 'ra, 'wa) source_ops \<Rightarrow> 's worker_run \<Rightarrow> 'wa \<Rightarrow> ('s worker_run \<times> worker_event list) result" where
  "thread_write_to_source ops st ans =
     (let w = wr_worker st; arr = wr_warr st in
      case wr_wpc st of
        W_While \<Rightarrow>
          if cw_m_queue_for_writing w \<noteq> None \<and> \<not> writer_leaves w then Inr (st\<lparr>wr_wpc := W_Peek\<rparr>, [])
          else Inr (st\<lparr>wr_wpc := W_Exit\<rparr>, [])
      | W_Peek \<Rightarrow>
          (case cw_m_queue_for_writing w of None \<Rightarrow> Inl Null_Pointer
           | Some q \<Rightarrow>
               rbind (deco_peek [] q (sa_elems arr) (word_of_nat (SizedArray_size arr))) (\<lambda>(get_status, out, q').
                 Inr (st\<lparr>wr_worker := w\<lparr>cw_m_queue_for_writing := Some q'\<rparr>,
                         wr_warr := SizedArray_resize (arr\<lparr>sa_elems := out\<rparr>) (unat get_status),
                         wr_wpc := W_Check get_status\<rparr>, [])))
      | W_Check get_status \<Rightarrow>
          if writer_leaves w then Inr (st\<lparr>wr_wpc := W_Exit\<rparr>, [])
          else if get_status = 0 then Inr (st\<lparr>wr_wpc := W_While\<rparr>, [])
          else Inr (st\<lparr>wr_wpc := W_Write\<rparr>, [])
      | W_Write \<Rightarrow>
          rbind (so_write ops (wr_source st) arr ans) (\<lambda>(write_status, s', arr', es).
            let st1 = st\<lparr>wr_source := s', wr_warr := arr'\<rparr>
            in if write_status = 0 then Inr (st1, os_events es)
               else if write_status < 0 then Inr (st1\<lparr>wr_wpc := W_Exit\<rparr>, os_events es)
               else Inr (st1\<lparr>wr_wpc := W_Get write_status\<rparr>, os_events es @ [E_Written (sa_data arr)]))
      | W_Get write_status \<Rightarrow>
          let w1 = w\<lparr>cw_m_statistics := add_sent (word_of_int write_status) (cw_m_statistics w)\<rparr>
          in (case cw_m_queue_for_writing w1 of None \<Rightarrow> Inl Null_Pointer
              | Some q \<Rightarrow>
                  rbind (deco_get [] q (sa_elems arr) 0) (\<lambda>(r, out, q').
                    Inr (st\<lparr>wr_worker := w1\<lparr>cw_m_queue_for_writing := Some q'\<rparr>,
                            wr_warr := arr\<lparr>sa_elems := out\<rparr>, wr_wpc := W_While\<rparr>, [])))
      | W_Exit \<Rightarrow> Inr (st\<lparr>wr_worker := w\<lparr>cw_m_write_thread_alive := False\<rparr>, wr_wpc := W_Done\<rparr>, [])
      | W_Done \<Rightarrow> Inl Blocked)"

text \<open>
  The guard: when both threads have ended it marks the worker stopped and calls the postmortem callback,
  and ends. It is past its two joins just when the worker is marked stopped.
\<close>

definition thread_guard :: "'s worker_run \<Rightarrow> ('s worker_run \<times> worker_event list) option" where
  "thread_guard st =
     (if wr_rpc st = R_Done \<and> wr_wpc st = W_Done \<and> \<not> cw_m_stopped (wr_worker st)
      then Some (st\<lparr>wr_worker := (wr_worker st)\<lparr>cw_m_stopped := True\<rparr>\<rparr>,
                 [E_Postmortem (cw_m_postmortem_callback (wr_worker st))])
      else None)"

text \<open>The users of the worker: one puts into the writing queue, one takes from the reading queue.\<close>

definition user_put :: "'s worker_run \<Rightarrow> bytes \<Rightarrow> u16 \<Rightarrow> ('s worker_run \<times> worker_event list) result" where
  "user_put st buf n =
     (case cw_m_queue_for_writing (wr_worker st) of None \<Rightarrow> Inl Null_Pointer
      | Some q \<Rightarrow> rbind (deco_put [] q buf n) (\<lambda>(r, q').
          Inr (st\<lparr>wr_worker := (wr_worker st)\<lparr>cw_m_queue_for_writing := Some q'\<rparr>\<rparr>,
               if deco_get_status q' = STATUS_QUEUEBASE_OK then [E_Produced (take (unat n) buf)] else [])))"

definition user_get :: "'s worker_run \<Rightarrow> bytes \<Rightarrow> ('s worker_run \<times> worker_event list) result" where
  "user_get st out =
     (case cw_m_queue_for_reading (wr_worker st) of None \<Rightarrow> Inl Null_Pointer
      | Some q \<Rightarrow> rbind (deco_get [] q out 65535) (\<lambda>(r, out', q').
          Inr (st\<lparr>wr_worker := (wr_worker st)\<lparr>cw_m_queue_for_reading := Some q'\<rparr>\<rparr>,
               if deco_get_status q' = STATUS_QUEUEBASE_OK then [E_Consumed (take (unat r) out')] else [])))"

definition worker_started :: "connection_worker \<Rightarrow> 's \<Rightarrow> 's worker_run" where
  "worker_started w s =
     \<lparr>wr_worker = w, wr_source = s,
      wr_rpc = R_While, wr_rarr = SizedArray_make (replicate connection_worker_arr_size 0),
      wr_wpc = W_While, wr_warr = SizedArray_make (replicate connection_worker_arr_size 0)\<rparr>"

text \<open>
  All interleavings of the three threads and the users, from the start of the worker. \<open>wok\<close> says
  which answers the kernel can give to a write. The trace lists the events, oldest first.
\<close>

inductive worker_steps ::
  "('s, 'ra, 'wa) source_ops \<Rightarrow> ('s \<Rightarrow> u8 sized_array \<Rightarrow> 'wa \<Rightarrow> bool) \<Rightarrow> 's worker_run
    \<Rightarrow> 's worker_run \<Rightarrow> worker_event list \<Rightarrow> bool"
  for ops wok st0 where
  ws_start: "worker_steps ops wok st0 st0 []"
| ws_reader: "worker_steps ops wok st0 st tr \<Longrightarrow> thread_read_from_source ops st ra = Inr (st', es) \<Longrightarrow>
    worker_steps ops wok st0 st' (tr @ es)"
| ws_writer: "worker_steps ops wok st0 st tr \<Longrightarrow>
    (wr_wpc st = W_Write \<longrightarrow> wok (wr_source st) (wr_warr st) wa) \<Longrightarrow>
    thread_write_to_source ops st wa = Inr (st', es) \<Longrightarrow> worker_steps ops wok st0 st' (tr @ es)"
| ws_guard: "worker_steps ops wok st0 st tr \<Longrightarrow> thread_guard st = Some (st', es) \<Longrightarrow>
    worker_steps ops wok st0 st' (tr @ es)"
| ws_put: "worker_steps ops wok st0 st tr \<Longrightarrow> unat n \<le> length buf \<Longrightarrow> user_put st buf n = Inr (st', es) \<Longrightarrow>
    worker_steps ops wok st0 st' (tr @ es)"
| ws_get: "worker_steps ops wok st0 st tr \<Longrightarrow> 65535 \<le> length out \<Longrightarrow> user_get st out = Inr (st', es) \<Longrightarrow>
    worker_steps ops wok st0 st' (tr @ es)"
| ws_stop: "worker_steps ops wok st0 st tr \<Longrightarrow>
    worker_steps ops wok st0 (st\<lparr>wr_worker := ConnectionWorker_stop (wr_worker st)\<rparr>) tr"

subsection \<open>The events of a trace\<close>

definition received :: "worker_event list \<Rightarrow> bytes" where
  "received tr = concat (map (\<lambda>e. case e of E_Received bs \<Rightarrow> bs | _ \<Rightarrow> []) tr)"

definition queued :: "worker_event list \<Rightarrow> bytes list" where
  "queued tr = concat (map (\<lambda>e. case e of E_Queued d \<Rightarrow> [d] | _ \<Rightarrow> []) tr)"

definition consumed :: "worker_event list \<Rightarrow> bytes list" where
  "consumed tr = concat (map (\<lambda>e. case e of E_Consumed d \<Rightarrow> [d] | _ \<Rightarrow> []) tr)"

definition produced :: "worker_event list \<Rightarrow> bytes list" where
  "produced tr = concat (map (\<lambda>e. case e of E_Produced d \<Rightarrow> [d] | _ \<Rightarrow> []) tr)"

definition written :: "worker_event list \<Rightarrow> bytes list" where
  "written tr = concat (map (\<lambda>e. case e of E_Written d \<Rightarrow> [d] | _ \<Rightarrow> []) tr)"

definition os_trace :: "worker_event list \<Rightarrow> os_event list" where
  "os_trace tr = concat (map (\<lambda>e. case e of E_Os es \<Rightarrow> es | _ \<Rightarrow> []) tr)"

definition postmortems :: "worker_event list \<Rightarrow> postmortem_callback list" where
  "postmortems tr = concat (map (\<lambda>e. case e of E_Postmortem cb \<Rightarrow> [cb] | _ \<Rightarrow> []) tr)"

lemmas trace_defs = received_def queued_def consumed_def produced_def written_def os_trace_def postmortems_def

lemma trace_append [simp]:
  "received (tr @ es) = received tr @ received es" "queued (tr @ es) = queued tr @ queued es"
  "consumed (tr @ es) = consumed tr @ consumed es" "produced (tr @ es) = produced tr @ produced es"
  "written (tr @ es) = written tr @ written es" "os_trace (tr @ es) = os_trace tr @ os_trace es"
  "postmortems (tr @ es) = postmortems tr @ postmortems es"
  by (simp_all add: trace_defs)

lemma trace_Nil [simp]:
  "received [] = []" "queued [] = []" "consumed [] = []" "produced [] = []" "written [] = []"
  "os_trace [] = []" "postmortems [] = []"
  by (simp_all add: trace_defs)

lemma trace_single [simp]:
  "received [e] = (case e of E_Received bs \<Rightarrow> bs | _ \<Rightarrow> [])"
  "queued [e] = (case e of E_Queued d \<Rightarrow> [d] | _ \<Rightarrow> [])"
  "consumed [e] = (case e of E_Consumed d \<Rightarrow> [d] | _ \<Rightarrow> [])"
  "produced [e] = (case e of E_Produced d \<Rightarrow> [d] | _ \<Rightarrow> [])"
  "written [e] = (case e of E_Written d \<Rightarrow> [d] | _ \<Rightarrow> [])"
  "os_trace [e] = (case e of E_Os es \<Rightarrow> es | _ \<Rightarrow> [])"
  "postmortems [e] = (case e of E_Postmortem cb \<Rightarrow> [cb] | _ \<Rightarrow> [])"
  by (simp_all add: trace_defs)

lemma trace_os_events [simp]:
  "received (os_events es) = []" "queued (os_events es) = []" "consumed (os_events es) = []"
  "produced (os_events es) = []" "written (os_events es) = []" "os_trace (os_events es) = es"
  "postmortems (os_events es) = []"
  "os_events [] = []"
  by (simp_all add: os_events_def)

subsection \<open>What a step leaves alone\<close>

lemma put_reading_frame:
  assumes "put_reading w buf n = Inr (r, w', es)"
  shows "(\<exists>q'. w' = w\<lparr>cw_m_queue_for_reading := Some q'\<rparr>)
    \<and> written es = [] \<and> produced es = [] \<and> consumed es = [] \<and> received es = []"
  using assms by (auto simp: put_reading_def rbind_eq_Inr split: option.splits if_splits)

lemma reader_frame:
  assumes "thread_read_from_source ops st ra = Inr (st', es)"
  shows "wr_wpc st' = wr_wpc st" and "wr_warr st' = wr_warr st"
    and "cw_m_queue_for_writing (wr_worker st') = cw_m_queue_for_writing (wr_worker st)"
    and "cw_m_write_thread_alive (wr_worker st') = cw_m_write_thread_alive (wr_worker st)"
    and "cw_m_stop_asked (wr_worker st') = cw_m_stop_asked (wr_worker st)"
    and "cw_m_stopped (wr_worker st') = cw_m_stopped (wr_worker st)"
    and "written es = []" and "produced es = []" and "consumed es = []"
    and "writer_leaves (wr_worker st) \<Longrightarrow> writer_leaves (wr_worker st')"
  using assms
  by (auto simp: writer_leaves_def thread_read_from_source_def Let_def rbind_eq_Inr dest!: put_reading_frame
      split: read_pc.splits if_splits option.splits list.splits)

lemma writer_frame:
  assumes "thread_write_to_source ops st wa = Inr (st', es)"
  shows "wr_rpc st' = wr_rpc st" and "wr_rarr st' = wr_rarr st"
    and "cw_m_queue_for_reading (wr_worker st') = cw_m_queue_for_reading (wr_worker st)"
    and "cw_m_parser (wr_worker st') = cw_m_parser (wr_worker st)"
    and "cw_m_read_thread_alive (wr_worker st') = cw_m_read_thread_alive (wr_worker st)"
    and "cw_m_stop_asked (wr_worker st') = cw_m_stop_asked (wr_worker st)"
    and "cw_m_stopped (wr_worker st') = cw_m_stopped (wr_worker st)"
    and "received es = []" and "queued es = []" and "consumed es = []" and "produced es = []"
    and "reader_leaves (wr_worker st) \<Longrightarrow> reader_leaves (wr_worker st')"
  using assms
  by (auto simp: reader_leaves_def thread_write_to_source_def Let_def rbind_eq_Inr
      split: write_pc.splits if_splits option.splits)

text \<open>The threads and the users do not call the postmortem callback.\<close>

lemma put_reading_quiet: "put_reading w buf n = Inr (r, w', es) \<Longrightarrow> postmortems es = []"
  by (auto simp: put_reading_def rbind_eq_Inr split: option.splits)

lemma no_postmortem:
  "thread_read_from_source ops st ra = Inr (st', es) \<Longrightarrow> postmortems es = []"
  "thread_write_to_source ops st wa = Inr (st', es) \<Longrightarrow> postmortems es = []"
  "user_put st buf n = Inr (st', es) \<Longrightarrow> postmortems es = []"
  "user_get st out = Inr (st', es) \<Longrightarrow> postmortems es = []"
  by (auto simp: thread_read_from_source_def thread_write_to_source_def user_put_def user_get_def Let_def
      rbind_eq_Inr put_reading_quiet split: read_pc.splits write_pc.splits if_splits option.splits list.splits)

text \<open>The interface of the source: what the threads need to know of the two virtual operations.\<close>

locale worker_source =
  fixes ops :: "('s, 'ra, 'wa) source_ops"
    and wok :: "'s \<Rightarrow> u8 sized_array \<Rightarrow> 'wa \<Rightarrow> bool"
  assumes read_law: "sa_ok buf \<Longrightarrow> so_read ops s buf ra = Inr (r, s', buf', es) \<Longrightarrow>
      SizedArray_size buf' = SizedArray_size buf \<and> sa_ok buf'
      \<and> (0 < r \<longrightarrow> r = int (SizedArray_data_size buf'))"
    and write_law: "sa_ok buf \<Longrightarrow> so_write ops s buf wa = Inr (r, s', buf', es) \<Longrightarrow>
      SizedArray_size buf' = SizedArray_size buf \<and> sa_ok buf'"
    and retry_law: "wok s buf wa \<Longrightarrow> sa_ok buf \<Longrightarrow> sa_data buf \<noteq> [] \<Longrightarrow>
      so_write ops s buf wa = Inr (0, s', buf', es) \<Longrightarrow> buf' = buf"

subsection \<open>The writing side\<close>

text \<open>
  What a user put into the writing queue is, in order, what was written to the source followed by what
  the queue holds; between a successful write and the \<open>get\<close> that removes it, an item is in both.
\<close>

definition writer_inv :: "'s worker_run \<Rightarrow> worker_event list \<Rightarrow> bool" where
  "writer_inv st tr \<longleftrightarrow>
     (\<exists>q. cw_m_queue_for_writing (wr_worker st) = Some q \<and> deco_inv q
        \<and> SizedArray_size (wr_warr st) = connection_worker_arr_size \<and> sa_ok (wr_warr st)
        \<and> ((\<exists>n. wr_wpc st = W_Get n) \<longrightarrow>
             (\<exists>d ds ws. deco_cont q = d # ds \<and> written tr = ws @ [d] \<and> produced tr = ws @ d # ds))
        \<and> ((\<forall>n. wr_wpc st \<noteq> W_Get n) \<longrightarrow> produced tr = written tr @ deco_cont q)
        \<and> (wr_wpc st = W_Write \<or> (\<exists>n. wr_wpc st = W_Check n \<and> n \<noteq> 0) \<longrightarrow>
             sa_data (wr_warr st) \<noteq> [] \<and> (\<exists>ds. deco_cont q = sa_data (wr_warr st) # ds)))"

lemma writer_inv_frame:
  assumes "writer_inv st tr" and "wr_wpc st' = wr_wpc st" and "wr_warr st' = wr_warr st"
    and "cw_m_queue_for_writing (wr_worker st') = cw_m_queue_for_writing (wr_worker st)"
    and "written es = []" and "produced es = []"
  shows "writer_inv st' (tr @ es)"
  using assms by (simp add: writer_inv_def)

lemma peek_item:
  assumes "deco_inv q" and "length out = connection_worker_arr_size"
    and "deco_peek [] q out (word_of_nat connection_worker_arr_size) = Inr (n, out', q')"
  shows "deco_inv q' \<and> deco_cont q' = deco_cont q \<and> length out' = length out
    \<and> unat n \<le> length out' \<and> (n \<noteq> 0 \<longrightarrow> take (unat n) out' \<noteq> [] \<and> (\<exists>ds. deco_cont q = take (unat n) out' # ds))"
proof -
  have sz: "unat (word_of_nat connection_worker_arr_size :: u16) = 65535"
    by (simp add: connection_worker_arr_size_def)
  from assms(2) have len: "length out = 65535" by (simp add: connection_worker_arr_size_def)
  from deco_peek_refines [OF assms(1), of "word_of_nat connection_worker_arr_size" out] assms(3) sz len
  have q': "deco_inv q'" "deco_cont q' = deco_cont q"
    and pk: "(n, out', deco_get_status q') = fifo_peek (deco_cont q) out (word_of_nat connection_worker_arr_size)"
    by auto
  show ?thesis
  proof (cases "deco_cont q")
    case Nil
    with pk q' show ?thesis by (simp add: fifo_peek_def)
  next
    case (Cons d ds)
    have "item_bound (deco_cont q)" by (rule dq.item_law [OF assms(1)])
    with Cons have d: "length d < 65536" by simp
    then have "min 65535 (length d) = length d" by simp
    with pk Cons sz have "out' = d @ drop (length d) out" "n = word_of_nat (length d)"
      by (auto simp: fifo_peek_def Let_def)
    moreover from d have "unat (word_of_nat (length d) :: u16) = length d" by (simp add: unat_of_nat)
    ultimately show ?thesis using q' Cons d len by (auto simp: unat_eq_0 [symmetric])
  qed
qed

lemma get_drops_head:
  assumes "deco_inv q" and "deco_get [] q out 0 = Inr (r, out', q')"
  shows "deco_inv q' \<and> deco_cont q' = tl (deco_cont q) \<and> out' = out"
proof -
  from deco_get_refines [OF assms(1), of 0 out] assms(2)
  have "deco_inv q'" "(r, out', deco_get_status q', deco_cont q') = fifo_get (deco_cont q) out 0" by auto
  then show ?thesis by (cases "deco_cont q") auto
qed

lemma put_item:
  assumes "deco_inv q" and "unat n \<le> length buf" and "deco_put [] q buf n = Inr (r, q')"
  shows "deco_inv q'"
    and "deco_get_status q' = STATUS_QUEUEBASE_OK \<Longrightarrow> deco_cont q' = deco_cont q @ [take (unat n) buf] \<and> r = n"
    and "deco_get_status q' \<noteq> STATUS_QUEUEBASE_OK \<Longrightarrow> deco_cont q' = deco_cont q \<and> r = 0"
  using deco_put_refines [OF assms(1,2)] assms(3) by (auto simp: fifo_put_def split: if_splits)

context worker_source
begin

lemma writer_step_inv:
  assumes inv: "writer_inv st tr" and ok: "wr_wpc st = W_Write \<longrightarrow> wok (wr_source st) (wr_warr st) wa"
    and step: "thread_write_to_source ops st wa = Inr (st', es)"
  shows "writer_inv st' (tr @ es)"
proof -
  from inv obtain q where q: "cw_m_queue_for_writing (wr_worker st) = Some q" "deco_inv q"
      "SizedArray_size (wr_warr st) = connection_worker_arr_size" "sa_ok (wr_warr st)"
    by (auto simp: writer_inv_def)
  show ?thesis
  proof (cases "wr_wpc st")
    case W_Peek
    from step W_Peek q(1) obtain n out q' where
      pk: "deco_peek [] q (sa_elems (wr_warr st)) (word_of_nat connection_worker_arr_size) = Inr (n, out, q')"
      and st': "es = []" "st' = st\<lparr>wr_worker := (wr_worker st)\<lparr>cw_m_queue_for_writing := Some q'\<rparr>,
          wr_warr := SizedArray_resize ((wr_warr st)\<lparr>sa_elems := out\<rparr>) (unat n), wr_wpc := W_Check n\<rparr>"
      by (auto simp: thread_write_to_source_def rbind_eq_Inr q(3) Let_def)
    have len: "length (sa_elems (wr_warr st)) = connection_worker_arr_size"
      using q(3) by (simp add: op_defs)
    have res: "sa_data (SizedArray_resize ((wr_warr st)\<lparr>sa_elems := out\<rparr>) (unat n)) = take (unat n) out"
      "SizedArray_size ((wr_warr st)\<lparr>sa_elems := out\<rparr>) = length out"
      using peek_item [OF q(2) len pk] by (auto simp: sa_data_def op_defs)
    show ?thesis
      using peek_item [OF q(2) len pk] inv W_Peek len q(1) unfolding st' writer_inv_def by (auto simp: res)
  next
    case W_Write
    from step W_Write obtain r s' arr' evs where
      wr: "so_write ops (wr_source st) (wr_warr st) wa = Inr (r, s', arr', evs)"
      by (auto simp: thread_write_to_source_def rbind_eq_Inr Let_def)
    have "r = 0 \<longrightarrow> arr' = wr_warr st"
      using retry_law [OF _ q(4) _ ] ok W_Write inv wr by (auto simp: writer_inv_def)
    then show ?thesis
      using step W_Write inv write_law [OF q(4) wr] wr q
      by (auto simp: thread_write_to_source_def writer_inv_def Let_def split: if_splits)
  next
    case (W_Get n)
    from step W_Get q(1) obtain r out q' where gt: "deco_get [] q (sa_elems (wr_warr st)) 0 = Inr (r, out, q')"
      and st': "es = []" "cw_m_queue_for_writing (wr_worker st') = Some q'" "wr_wpc st' = W_While"
          "wr_warr st' = (wr_warr st)\<lparr>sa_elems := out\<rparr>"
      by (auto simp: thread_write_to_source_def rbind_eq_Inr Let_def)
    have "wr_warr st' = wr_warr st" using get_drops_head [OF q(2) gt] st'(4) by simp
    with get_drops_head [OF q(2) gt] inv W_Get q st' show ?thesis by (auto simp: writer_inv_def)
  qed (use step inv q in \<open>auto simp: thread_write_to_source_def writer_inv_def split: if_splits\<close>)
qed

end

subsection \<open>The reading side\<close>

text \<open>
  The datagrams the reading thread has cut out and not yet put into the queue, unless it has given
  them up because it was asked to leave.
\<close>

fun pending :: "read_pc \<Rightarrow> bytes list" where
  "pending (R_For dgs) = dgs"
| "pending (R_Put kg rest) = kg # rest"
| "pending (R_After put_status kg rest) = (if put_status = 0 then kg # rest else rest)"
| "pending (R_Next rest) = rest"
| "pending _ = []"

fun giving_up :: "read_pc \<Rightarrow> bool" where
  "giving_up R_While = True"
| "giving_up (R_Next rest) = True"
| "giving_up R_Exit = True"
| "giving_up R_Done = True"
| "giving_up _ = False"

text \<open>The bytes in the array that the parser has not been given yet.\<close>

definition unparsed :: "'s worker_run \<Rightarrow> bytes" where
  "unparsed st =
     (case wr_rpc st of R_Check n \<Rightarrow> if n > 0 then sa_data (wr_rarr st) else [] | _ \<Rightarrow> [])"

definition reader_at ::
  "'s worker_run \<Rightarrow> worker_event list \<Rightarrow> queue_obj \<Rightarrow> bytes \<Rightarrow> bytes \<Rightarrow> bytes \<Rightarrow> bytes list \<Rightarrow> bool" where
  "reader_at st tr q r parsed rest remaining \<longleftrightarrow>
     cw_m_queue_for_reading (wr_worker st) = Some q \<and> deco_inv q \<and> queued tr = consumed tr @ deco_cont q
     \<and> cw_m_parser (wr_worker st) = Some (Obj_ParserExample (parser_at r))
     \<and> SizedArray_size (wr_rarr st) = connection_worker_arr_size \<and> sa_ok (wr_rarr st)
     \<and> received tr = parsed @ rest \<and> (rest = unparsed st \<or> wr_rpc st \<in> {R_Exit, R_Done})
     \<and> deframe parsed = Inr (queued tr @ remaining, r)
     \<and> (remaining = pending (wr_rpc st) \<or> reader_leaves (wr_worker st) \<and> giving_up (wr_rpc st))"

definition reader_inv :: "'s worker_run \<Rightarrow> worker_event list \<Rightarrow> bool" where
  "reader_inv st tr \<longleftrightarrow> (\<exists>q r parsed rest remaining. reader_at st tr q r parsed rest remaining)"

lemma unparsed_cong: "wr_rpc st' = wr_rpc st \<Longrightarrow> wr_rarr st' = wr_rarr st \<Longrightarrow> unparsed st' = unparsed st"
  by (cases "wr_rpc st") (simp_all add: unparsed_def)

lemma reader_inv_frame:
  assumes "reader_inv st tr" and "wr_rpc st' = wr_rpc st" and "wr_rarr st' = wr_rarr st"
    and "cw_m_queue_for_reading (wr_worker st') = cw_m_queue_for_reading (wr_worker st)"
    and "cw_m_parser (wr_worker st') = cw_m_parser (wr_worker st)"
    and "reader_leaves (wr_worker st) \<Longrightarrow> reader_leaves (wr_worker st')"
    and "received es = []" and "queued es = []" and "consumed es = []"
  shows "reader_inv st' (tr @ es)"
proof -
  have "unparsed st' = unparsed st" by (rule unparsed_cong) fact+
  with assms(1) show ?thesis
    unfolding reader_inv_def reader_at_def trace_append assms(2-5,7-9) append_Nil2
    by (elim ex_forward) (use assms(6) in auto)
qed

lemma fifo_get_whole:
  assumes "length d < 65536"
  shows "fifo_get (d # ds) out 65535
    = (word_of_nat (length d), d @ drop (length d) out, STATUS_QUEUEBASE_OK, ds)"
proof -
  have "min (unat (65535 :: u16)) (length d) = length d" using assms by simp
  then show ?thesis by (simp only: fifo_get_simps) simp
qed

lemma user_get_frame:
  assumes "user_get st out = Inr (st', es)" and "65535 \<le> length out"
    and "cw_m_queue_for_reading (wr_worker st) = Some q" and "deco_inv q"
  shows "\<exists>q'. st' = st\<lparr>wr_worker := (wr_worker st)\<lparr>cw_m_queue_for_reading := Some q'\<rparr>\<rparr> \<and> deco_inv q'
    \<and> deco_cont q = consumed es @ deco_cont q'
    \<and> received es = [] \<and> queued es = [] \<and> produced es = [] \<and> written es = []"
proof -
  from deco_get_refines [OF assms(4), of 65535 out] assms(2) obtain r out' q' where
    gt: "deco_get [] q out 65535 = Inr (r, out', q')" "deco_inv q'"
    "(r, out', deco_get_status q', deco_cont q') = fifo_get (deco_cont q) out 65535" by auto
  show ?thesis
  proof (cases "deco_cont q")
    case Nil
    with gt assms(1,3) show ?thesis by (auto simp: user_get_def)
  next
    case (Cons d ds)
    with dq.item_law [OF assms(4)] have d: "length d < 65536" by simp
    from gt(3) have "out' = d @ drop (length d) out" "r = word_of_nat (length d)"
      "deco_get_status q' = STATUS_QUEUEBASE_OK" "deco_cont q' = ds"
      by (simp_all only: Cons fifo_get_whole [OF d] prod.inject)
    moreover from d have "unat (word_of_nat (length d) :: u16) = length d" by (simp add: unat_of_nat)
    ultimately show ?thesis using gt(1,2) assms(1,3) Cons by (auto simp: user_get_def)
  qed
qed

lemma put_reading_item:
  assumes "cw_m_queue_for_reading w = Some q" and "deco_inv q" and "kg \<noteq> []" and "length kg < 65536"
    and "put_reading w kg (word_of_nat (length kg)) = Inr (r, w', es)"
  shows "\<exists>q'. w' = w\<lparr>cw_m_queue_for_reading := Some q'\<rparr> \<and> deco_inv q'
    \<and> deco_cont q' = deco_cont q @ queued es \<and> queued es = (if r = 0 then [] else [kg])"
proof -
  have n: "unat (word_of_nat (length kg) :: u16) = length kg" using assms(4) by (simp add: unat_of_nat)
  then have "(word_of_nat (length kg) :: u16) \<noteq> 0" using assms(3) by (auto simp: unat_eq_0 [symmetric])
  moreover from assms(1,5) obtain q' where pt: "deco_put [] q kg (word_of_nat (length kg)) = Inr (r, q')"
    and w': "w' = w\<lparr>cw_m_queue_for_reading := Some q'\<rparr>"
      "es = (if deco_get_status q' = STATUS_QUEUEBASE_OK then [E_Queued kg] else [])"
    by (auto simp: put_reading_def rbind_eq_Inr n)
  ultimately show ?thesis
    using put_item [OF assms(2) _ pt] n by (auto split: if_splits)
qed

text \<open>The step that hands the bytes just read to the parser.\<close>

lemma reader_parse_step:
  assumes at: "reader_at st tr q r parsed rest remaining" and pc: "wr_rpc st = R_Check n" "n > 0"
    and stay: "\<not> reader_leaves (wr_worker st)"
    and step: "thread_read_from_source ops st ra = Inr (st', es)"
  shows "reader_inv st' (tr @ es)"
proof -
  let ?arr = "wr_rarr st"
  from at pc have rest: "rest = sa_data ?arr" and fin: "deframe parsed = Inr (queued tr, r)"
    by (auto simp: reader_at_def unparsed_def)
  have r: "deframe r = Inr ([], r)" using deframe_result [OF fin] by simp
  from at have size: "SizedArray_data_size ?arr \<le> 65535" "SizedArray_data_size ?arr \<le> length (sa_elems ?arr)"
    by (auto simp: reader_at_def sa_ok_def op_defs connection_worker_arr_size_def)
  then have n: "unat (word_of_nat (SizedArray_data_size ?arr) :: u32) = SizedArray_data_size ?arr"
    by (simp add: unat_of_nat)
  have taken: "take (SizedArray_data_size ?arr) (sa_elems ?arr) = rest"
    using rest by (simp add: sa_data_def op_defs)
  have "cw_m_parser (wr_worker st) = Some (Obj_ParserExample (parser_at r))" using at by (simp add: reader_at_def)
  with step pc stay obtain k p dgs where put: "ParserExample_put (parser_at r) (sa_elems ?arr)
        (word_of_nat (SizedArray_data_size ?arr)) (cw_m_dg_vector_for_parser (wr_worker st)) = Inr (k, p, dgs)"
    and st': "es = []" "wr_rpc st' = R_For dgs" "wr_rarr st' = ?arr"
      "cw_m_queue_for_reading (wr_worker st') = cw_m_queue_for_reading (wr_worker st)"
      "cw_m_parser (wr_worker st') = Some (Obj_ParserExample p)"
    by (auto simp: thread_read_from_source_def Let_def rbind_eq_Inr)
  from put size(2) n obtain r' where "deframe (r @ rest) = Inr (dgs, r')" "p = parser_at r'"
    by (auto simp: ParserExample_put_at [OF r] rbind_eq_Inr taken)
  then have "deframe (parsed @ rest) = Inr (queued tr @ dgs, r')"
    using deframe_append [of parsed rest] fin by (simp add: seq_spec_def)
  then have "reader_at st' (tr @ es) q r' (parsed @ rest) [] dgs"
    using at st' \<open>p = parser_at r'\<close> by (simp add: reader_at_def unparsed_def)
  then show ?thesis unfolding reader_inv_def by blast
qed

lemma reader_put_step:
  assumes at: "reader_at st tr q r parsed rest remaining" and pc: "wr_rpc st = R_Put kg dgs"
    and step: "thread_read_from_source ops st ra = Inr (st', es)"
  shows "reader_inv st' (tr @ es)"
proof -
  from at pc have rem: "deframe parsed = Inr (queued tr @ kg # dgs, r)" by (simp add: reader_at_def)
  then have "12 \<le> length kg" "length kg < 65536"
    using deframe_result [OF rem] head_size_bound [of kg] by (auto simp: well_formed_def)
  then have kg: "kg \<noteq> []" "length kg < 65536" by auto
  from step pc obtain m w1 where put: "put_reading (wr_worker st) kg (word_of_nat (length kg)) = Inr (m, w1, es)"
    and st': "st' = st\<lparr>wr_worker := w1, wr_rpc := R_After m kg dgs\<rparr>"
    by (auto simp: thread_read_from_source_def Let_def rbind_eq_Inr)
  from at have "cw_m_queue_for_reading (wr_worker st) = Some q" "deco_inv q" by (simp_all add: reader_at_def)
  from put_reading_item [OF this kg put] obtain q' where q': "w1 = (wr_worker st)\<lparr>cw_m_queue_for_reading := Some q'\<rparr>"
    "deco_inv q'" "deco_cont q' = deco_cont q @ queued es" "queued es = (if m = 0 then [] else [kg])" by blast
  have "consumed es = []" "received es = []" using put_reading_frame [OF put] by auto
  moreover from at pc have a: "queued tr = consumed tr @ deco_cont q"
      "cw_m_parser (wr_worker st) = Some (Obj_ParserExample (parser_at r))"
      "SizedArray_size (wr_rarr st) = connection_worker_arr_size" "sa_ok (wr_rarr st)"
      "received tr = parsed" "rest = []"
    by (simp_all add: reader_at_def unparsed_def)
  ultimately have "reader_at st' (tr @ es) q' r parsed rest (pending (R_After m kg dgs))"
    unfolding reader_at_def by (intro conjI) (simp_all add: st' q' a rem unparsed_def)
  then show ?thesis unfolding reader_inv_def by blast
qed

context worker_source
begin

lemma reader_step_inv:
  assumes inv: "reader_inv st tr" and step: "thread_read_from_source ops st ra = Inr (st', es)"
  shows "reader_inv st' (tr @ es)"
proof -
  from inv obtain q r parsed rest remaining where at: "reader_at st tr q r parsed rest remaining"
    unfolding reader_inv_def by blast
  show ?thesis
  proof (cases "wr_rpc st")
    case R_Read
    from step R_Read obtain n s' arr' evs where rd: "so_read ops (wr_source st) (wr_rarr st) ra = Inr (n, s', arr', evs)"
      and st': "st' = st\<lparr>wr_source := s', wr_rarr := arr', wr_rpc := R_Check n\<rparr>"
        "es = os_events evs @ (if n > 0 then [E_Received (sa_data arr')] else [])"
      by (auto simp: thread_read_from_source_def Let_def rbind_eq_Inr)
    have "reader_at st' (tr @ es) q r parsed (unparsed st') []"
      using at R_Read read_law [OF _ rd] by (auto simp: reader_at_def st' unparsed_def)
    then show ?thesis unfolding reader_inv_def by blast
  next
    case (R_Check n)
    show ?thesis
    proof (cases "n > 0 \<and> \<not> reader_leaves (wr_worker st)")
      case True
      with reader_parse_step [OF at R_Check _ _ step] show ?thesis by blast
    next
      case False
      with step R_Check consider "es = []" "st' = st\<lparr>wr_rpc := R_Exit\<rparr>" | "n \<le> 0" "es = []" "st' = st\<lparr>wr_rpc := R_While\<rparr>"
        by (auto simp: thread_read_from_source_def Let_def split: if_splits)
      then have "reader_at st' (tr @ es) q r parsed rest remaining"
        using at R_Check by cases (simp_all add: reader_at_def unparsed_def)
      then show ?thesis unfolding reader_inv_def by blast
    qed
  next
    case (R_Put kg dgs)
    then show ?thesis using reader_put_step [OF at _ step] by blast
  next
    case R_Exit
    with step at have "reader_at st' (tr @ es) q r parsed rest remaining"
      by (auto simp: thread_read_from_source_def reader_at_def unparsed_def reader_leaves_def)
    then show ?thesis unfolding reader_inv_def by blast
  next
    case R_Done
    with step show ?thesis by (simp add: thread_read_from_source_def)
  next
    case R_While
    with step at have "reader_at st' (tr @ es) q r parsed rest remaining"
      by (auto simp: thread_read_from_source_def reader_at_def unparsed_def split: if_splits)
    then show ?thesis unfolding reader_inv_def by blast
  next
    case (R_For dgs)
    with step at have "reader_at st' (tr @ es) q r parsed rest remaining"
      by (auto simp: thread_read_from_source_def reader_at_def unparsed_def split: list.splits)
    then show ?thesis unfolding reader_inv_def by blast
  next
    case (R_After m kg dgs)
    with step at have "reader_at st' (tr @ es) q r parsed rest remaining"
      by (auto simp: thread_read_from_source_def Let_def reader_at_def unparsed_def split: if_splits)
    then show ?thesis unfolding reader_inv_def by blast
  next
    case (R_Next dgs)
    with step at have "reader_at st' (tr @ es) q r parsed rest remaining"
      by (auto simp: thread_read_from_source_def Let_def reader_at_def unparsed_def split: if_splits)
    then show ?thesis unfolding reader_inv_def by blast
  qed
qed

end

lemma put_user_writer_inv:
  assumes "writer_inv st tr" and "unat n \<le> length buf" and "user_put st buf n = Inr (st', es)"
  shows "writer_inv st' (tr @ es)"
proof -
  from assms(1) obtain q where q: "cw_m_queue_for_writing (wr_worker st) = Some q" "deco_inv q"
    by (auto simp: writer_inv_def)
  with assms(3) obtain r q' where pt: "deco_put [] q buf n = Inr (r, q')"
    and st': "st' = st\<lparr>wr_worker := (wr_worker st)\<lparr>cw_m_queue_for_writing := Some q'\<rparr>\<rparr>"
      "es = (if deco_get_status q' = STATUS_QUEUEBASE_OK then [E_Produced (take (unat n) buf)] else [])"
    by (auto simp: user_put_def rbind_eq_Inr)
  show ?thesis
    using assms(1) q put_item [OF q(2) assms(2) pt]
    by (cases "deco_get_status q' = STATUS_QUEUEBASE_OK") (auto simp: writer_inv_def st')
qed

lemma user_put_frame:
  assumes "user_put st buf n = Inr (st', es)"
  shows "wr_rpc st' = wr_rpc st" and "wr_rarr st' = wr_rarr st"
    and "cw_m_queue_for_reading (wr_worker st') = cw_m_queue_for_reading (wr_worker st)"
    and "cw_m_parser (wr_worker st') = cw_m_parser (wr_worker st)"
    and "reader_leaves (wr_worker st) \<Longrightarrow> reader_leaves (wr_worker st')"
    and "received es = []" and "queued es = []" and "consumed es = []"
  using assms by (auto simp: user_put_def rbind_eq_Inr reader_leaves_def split: option.splits if_splits)

lemma guard_frame:
  "thread_guard st = Some (st', es) \<Longrightarrow> wr_rpc st' = wr_rpc st \<and> wr_wpc st' = wr_wpc st \<and> wr_rarr st' = wr_rarr st
    \<and> wr_warr st' = wr_warr st \<and> wr_worker st' = (wr_worker st)\<lparr>cw_m_stopped := True\<rparr>
    \<and> wr_source st' = wr_source st \<and> es = [E_Postmortem (cw_m_postmortem_callback (wr_worker st))]"
  by (auto simp: thread_guard_def split: if_splits)

context worker_source
begin

lemma steps_writer_inv:
  assumes "worker_steps ops wok st0 st tr" and "writer_inv st0 []"
  shows "writer_inv st tr"
  using assms
proof (induction rule: worker_steps.induct)
  case ws_start
  then show ?case by simp
next
  case (ws_reader st tr ra st' es)
  show ?case
    by (rule writer_inv_frame [OF ws_reader.IH [OF ws_reader.prems]]) (fact reader_frame [OF ws_reader.hyps(2)])+
next
  case (ws_writer st tr wa st' es)
  then show ?case using writer_step_inv by blast
next
  case (ws_guard st tr st' es)
  then show ?case using writer_inv_frame [of st tr st' es] guard_frame [of st st' es] by simp
next
  case (ws_put st tr n buf st' es)
  then show ?case using put_user_writer_inv by blast
next
  case (ws_get st tr out st' es)
  then have "wr_wpc st' = wr_wpc st" "wr_warr st' = wr_warr st" "written es = []" "produced es = []"
    "cw_m_queue_for_writing (wr_worker st') = cw_m_queue_for_writing (wr_worker st)"
    by (auto simp: user_get_def rbind_eq_Inr split: option.splits if_splits)
  with ws_get show ?case using writer_inv_frame by blast
next
  case (ws_stop st tr)
  then show ?case
    using writer_inv_frame [of st tr "st\<lparr>wr_worker := ConnectionWorker_stop (wr_worker st)\<rparr>" "[]"]
    by (simp add: ConnectionWorker_stop_def)
qed

lemma steps_reader_inv:
  assumes "worker_steps ops wok st0 st tr" and "reader_inv st0 []"
  shows "reader_inv st tr"
  using assms
proof (induction rule: worker_steps.induct)
  case ws_start
  then show ?case by simp
next
  case (ws_reader st tr ra st' es)
  then show ?case using reader_step_inv by blast
next
  case (ws_writer st tr wa st' es)
  show ?case
    by (rule reader_inv_frame [OF ws_writer.IH [OF ws_writer.prems]])
      (fact writer_frame [OF ws_writer.hyps(3)] | erule writer_frame(12) [OF ws_writer.hyps(3)])+
next
  case (ws_guard st tr st' es)
  then show ?case
    using reader_inv_frame [of st tr st' es] guard_frame [of st st' es] by (simp add: reader_leaves_def)
next
  case (ws_put st tr n buf st' es)
  show ?case
    by (rule reader_inv_frame [OF ws_put.IH [OF ws_put.prems]])
      (fact user_put_frame [OF ws_put.hyps(3)] | erule user_put_frame(5) [OF ws_put.hyps(3)])+
next
  case (ws_get st tr out st' es)
  then obtain q r parsed rest remaining where at: "reader_at st tr q r parsed rest remaining"
    unfolding reader_inv_def by blast
  then have "cw_m_queue_for_reading (wr_worker st) = Some q" "deco_inv q" by (simp_all add: reader_at_def)
  from user_get_frame [OF ws_get.hyps(3,2) this] obtain q' where
    q': "st' = st\<lparr>wr_worker := (wr_worker st)\<lparr>cw_m_queue_for_reading := Some q'\<rparr>\<rparr>" "deco_inv q'"
      "deco_cont q = consumed es @ deco_cont q'" "received es = []" "queued es = []" by blast
  have "unparsed st' = unparsed st" by (rule unparsed_cong) (simp_all add: q'(1))
  with at q'(2-) have "reader_at st' (tr @ es) q' r parsed rest remaining"
    unfolding reader_at_def q'(1) by (simp add: reader_leaves_def)
  then show ?case unfolding reader_inv_def by blast
next
  case (ws_stop st tr)
  then show ?case
    using reader_inv_frame [of st tr "st\<lparr>wr_worker := ConnectionWorker_stop (wr_worker st)\<rparr>" "[]"]
    by (simp add: ConnectionWorker_stop_def reader_leaves_def)
qed

end

text \<open>The worker as the program starts it, with empty queues that do not block.\<close>

definition fresh_queue :: "queue_obj option \<Rightarrow> bool" where
  "fresh_queue oq \<longleftrightarrow> (case oq of None \<Rightarrow> False | Some q \<Rightarrow> deco_inv q \<and> deco_cont q = [])"

lemma started_writer_inv:
  assumes "fresh_queue (cw_m_queue_for_writing w)"
  shows "writer_inv (worker_started w s) []"
  using assms by (auto simp: fresh_queue_def writer_inv_def worker_started_def split: option.splits)

lemma started_reader_inv:
  assumes "fresh_queue (cw_m_queue_for_reading w)"
    and "cw_m_parser w = Some (Obj_ParserExample ParserExample_ctor)"
  shows "reader_inv (worker_started w s) []"
proof -
  from assms(1) obtain q where "cw_m_queue_for_reading w = Some q" "deco_inv q" "deco_cont q = []"
    by (auto simp: fresh_queue_def split: option.splits)
  then have "reader_at (worker_started w s) [] q [] [] [] []"
    using assms(2) by (simp add: reader_at_def worker_started_def unparsed_def ParserExample_ctor_at)
  then show ?thesis unfolding reader_inv_def by blast
qed

context worker_source
begin

text \<open>
  The two main facts. Reading: the datagrams the users have taken, then those in the queue, are a
  prefix of the datagrams of the bytes received, all of them when the thread is about to read again.
\<close>

lemma worker_reads:
  assumes "worker_steps ops wok (worker_started w s) st tr" and "fresh_queue (cw_m_queue_for_reading w)"
    and "cw_m_parser w = Some (Obj_ParserExample ParserExample_ctor)"
  shows "\<exists>q parsed rest remaining r. cw_m_queue_for_reading (wr_worker st) = Some q
    \<and> received tr = parsed @ rest \<and> deframe parsed = Inr (consumed tr @ deco_cont q @ remaining, r)
    \<and> (wr_rpc st = R_Read \<longrightarrow> rest = [] \<and> remaining = [])"
proof -
  obtain q r parsed rest remaining where at: "reader_at st tr q r parsed rest remaining"
    using steps_reader_inv [OF assms(1) started_reader_inv [OF assms(2,3)]] unfolding reader_inv_def by blast
  then have "wr_rpc st = R_Read \<longrightarrow> rest = [] \<and> remaining = []"
    by (auto simp: reader_at_def unparsed_def)
  with at show ?thesis
    by (intro exI [of _ q] exI [of _ parsed] exI [of _ rest] exI [of _ remaining] exI [of _ r])
      (simp add: reader_at_def)
qed

lemma worker_writes:
  assumes "worker_steps ops wok (worker_started w s) st tr" and "fresh_queue (cw_m_queue_for_writing w)"
  shows "\<exists>q. cw_m_queue_for_writing (wr_worker st) = Some q \<and>
    (if \<exists>n. wr_wpc st = W_Get n
     then written tr \<noteq> [] \<and> produced tr = butlast (written tr) @ deco_cont q \<and> last (written tr) = hd (deco_cont q)
     else produced tr = written tr @ deco_cont q)"
  using steps_writer_inv [OF assms(1) started_writer_inv [OF assms(2)]]
  by (auto simp: writer_inv_def)

end

subsection \<open>Stopping\<close>

text \<open>How many steps of its own a thread that was asked to leave has left.\<close>

fun read_rank :: "read_pc \<Rightarrow> nat" where
  "read_rank R_Done = 0"
| "read_rank R_Exit = 1"
| "read_rank R_While = 2"
| "read_rank (R_Check n) = 3"
| "read_rank (R_Next rest) = 3"
| "read_rank R_Read = 4"
| "read_rank (R_After m kg rest) = 4"
| "read_rank (R_Put kg rest) = 5"
| "read_rank (R_For dgs) = 6"

fun write_rank :: "write_pc \<Rightarrow> nat" where
  "write_rank W_Done = 0"
| "write_rank W_Exit = 1"
| "write_rank W_While = 2"
| "write_rank (W_Check n) = 3"
| "write_rank (W_Get n) = 3"
| "write_rank W_Peek = 4"
| "write_rank W_Write = 4"

lemma rank_bounds: "read_rank pc \<le> 6" "write_rank wpc \<le> 4"
  by (cases pc; simp) (cases wpc; simp)

lemma reader_rank_step:
  assumes "reader_leaves (wr_worker st)" and "thread_read_from_source ops st ra = Inr (st', es)"
  shows "read_rank (wr_rpc st') < read_rank (wr_rpc st)"
  using assms
  by (cases "wr_rpc st") (auto simp: thread_read_from_source_def Let_def rbind_eq_Inr
      split: if_splits option.splits list.splits)

lemma writer_rank_step:
  assumes "writer_leaves (wr_worker st)" and "thread_write_to_source ops st wa = Inr (st', es)"
  shows "write_rank (wr_wpc st') < write_rank (wr_wpc st)
    \<or> wr_wpc st = W_Write \<and> wr_wpc st' = W_Write
        \<and> (\<exists>s' arr' evs. so_write ops (wr_source st) (wr_warr st) wa = Inr (0, s', arr', evs))"
  using assms
  by (cases "wr_wpc st") (auto simp: thread_write_to_source_def Let_def rbind_eq_Inr
      split: if_splits option.splits)

text \<open>A run of one thread alone, on a list of answers.\<close>

fun run_reader ::
  "('s, 'ra, 'wa) source_ops \<Rightarrow> 's worker_run \<Rightarrow> 'ra list \<Rightarrow> ('s worker_run \<times> worker_event list) result" where
  "run_reader ops st [] = Inr (st, [])"
| "run_reader ops st (ra # ras) =
     rbind (thread_read_from_source ops st ra) (\<lambda>(st1, es1).
     rbind (run_reader ops st1 ras) (\<lambda>(st2, es2). Inr (st2, es1 @ es2)))"

fun run_writer ::
  "('s, 'ra, 'wa) source_ops \<Rightarrow> 's worker_run \<Rightarrow> 'wa list \<Rightarrow> ('s worker_run \<times> worker_event list) result" where
  "run_writer ops st [] = Inr (st, [])"
| "run_writer ops st (wa # was) =
     rbind (thread_write_to_source ops st wa) (\<lambda>(st1, es1).
     rbind (run_writer ops st1 was) (\<lambda>(st2, es2). Inr (st2, es1 @ es2)))"

lemma reader_leaves_kept:
  assumes "reader_leaves (wr_worker st)" and "thread_read_from_source ops st ra = Inr (st', es)"
  shows "reader_leaves (wr_worker st')"
  using assms reader_frame(4,5) [OF assms(2)] by (simp add: reader_leaves_def)

lemma run_reader_short:
  assumes "reader_leaves (wr_worker st)" and "run_reader ops st ras = Inr (st', es)"
  shows "read_rank (wr_rpc st') + length ras \<le> read_rank (wr_rpc st)"
  using assms
proof (induction ras arbitrary: st es)
  case Nil
  then show ?case by simp
next
  case (Cons ra ras)
  then obtain st1 es1 es2 where 1: "thread_read_from_source ops st ra = Inr (st1, es1)"
    and 2: "run_reader ops st1 ras = Inr (st', es2)"
    by (auto simp: rbind_eq_Inr)
  from Cons.IH [OF reader_leaves_kept [OF Cons.prems(1) 1] 2] reader_rank_step [OF Cons.prems(1) 1]
  show ?case by simp
qed

lemma writer_leaves_kept:
  assumes "writer_leaves (wr_worker st)" and "thread_write_to_source ops st wa = Inr (st', es)"
  shows "writer_leaves (wr_worker st')"
  using assms writer_frame(5,6) [OF assms(2)] by (simp add: writer_leaves_def)

text \<open>A source that never asks for a retry.\<close>

definition no_retry :: "('s, 'ra, 'wa) source_ops \<Rightarrow> 'wa \<Rightarrow> bool" where
  "no_retry ops wa \<longleftrightarrow> (\<forall>s buf s' buf' es. so_write ops s buf wa \<noteq> Inr (0, s', buf', es))"

lemma run_writer_short:
  assumes "writer_leaves (wr_worker st)" and "run_writer ops st was = Inr (st', es)"
    and "list_all (no_retry ops) was"
  shows "write_rank (wr_wpc st') + length was \<le> write_rank (wr_wpc st)"
  using assms
proof (induction was arbitrary: st es)
  case Nil
  then show ?case by simp
next
  case (Cons wa was)
  then obtain st1 es1 es2 where 1: "thread_write_to_source ops st wa = Inr (st1, es1)"
    and 2: "run_writer ops st1 was = Inr (st', es2)"
    by (auto simp: rbind_eq_Inr)
  have "write_rank (wr_wpc st1) < write_rank (wr_wpc st)"
    using writer_rank_step [OF Cons.prems(1) 1] Cons.prems(3) by (auto simp: no_retry_def)
  with Cons.IH [OF writer_leaves_kept [OF Cons.prems(1) 1] 2] Cons.prems(3) show ?case by simp
qed

text \<open>A thread that was asked to leave gets stuck only at its end or inside a call.\<close>

lemma reader_stuck:
  assumes "reader_leaves (wr_worker st)" and "thread_read_from_source ops st ra = Inl f"
  shows "wr_rpc st = R_Done \<or> wr_rpc st = R_Read \<and> so_read ops (wr_source st) (wr_rarr st) ra = Inl f
    \<or> (\<exists>kg rest. wr_rpc st = R_Put kg rest \<and> put_reading (wr_worker st) kg (word_of_nat (length kg)) = Inl f)"
  using assms
  by (cases "wr_rpc st") (auto simp: thread_read_from_source_def Let_def rbind_eq_Inl
      split: if_splits list.splits)

subsection \<open>Steps keep the guard and its thread\<close>

lemma put_reading_guard:
  "put_reading w buf n = Inr (r, w', es) \<Longrightarrow> cw_t_guard_joinable w' = cw_t_guard_joinable w"
  using put_reading_frame [of w buf n r w' es] by auto

lemma step_guard:
  "thread_read_from_source ops st ra = Inr (st', es) \<Longrightarrow>
     cw_t_guard_joinable (wr_worker st') = cw_t_guard_joinable (wr_worker st)"
  "thread_write_to_source ops st wa = Inr (st', es) \<Longrightarrow>
     cw_t_guard_joinable (wr_worker st') = cw_t_guard_joinable (wr_worker st)"
  by (auto simp: thread_read_from_source_def thread_write_to_source_def Let_def rbind_eq_Inr
      put_reading_guard split: read_pc.splits write_pc.splits if_splits option.splits list.splits)

lemma steps_guard:
  assumes "worker_steps ops wok st0 st tr"
  shows "cw_t_guard_joinable (wr_worker st) = cw_t_guard_joinable (wr_worker st0)"
  using assms
proof (induction rule: worker_steps.induct)
  case (ws_put st tr n buf st' es)
  then show ?case by (auto simp: user_put_def rbind_eq_Inr split: option.splits)
next
  case (ws_get st tr out st' es)
  then show ?case by (auto simp: user_get_def rbind_eq_Inr split: option.splits)
qed (auto simp: step_guard ConnectionWorker_stop_def dest: guard_frame)

subsection \<open>An empty item\<close>

definition stalled :: "'s worker_run \<Rightarrow> worker_event list \<Rightarrow> bytes list \<Rightarrow> bool" where
  "stalled st tr ds \<longleftrightarrow> written tr = [] \<and> wr_wpc st \<in> {W_While, W_Peek, W_Check 0, W_Exit, W_Done}
     \<and> SizedArray_size (wr_warr st) = connection_worker_arr_size
     \<and> (\<exists>q more. cw_m_queue_for_writing (wr_worker st) = Some q \<and> deco_inv q \<and> deco_cont q = [] # ds @ more)"

lemma stalled_frame:
  assumes "stalled st tr ds" and "wr_wpc st' = wr_wpc st" and "wr_warr st' = wr_warr st"
    and "cw_m_queue_for_writing (wr_worker st') = cw_m_queue_for_writing (wr_worker st)" and "written es = []"
  shows "stalled st' (tr @ es) ds"
  using assms by (simp add: stalled_def)

lemma stalled_writer:
  assumes st: "stalled st tr ds" and step: "thread_write_to_source ops st wa = Inr (st', es)"
  shows "stalled st' (tr @ es) ds"
proof (cases "wr_wpc st")
  case W_Peek
  from st obtain q tail where q: "cw_m_queue_for_writing (wr_worker st) = Some q" "deco_inv q"
      "deco_cont q = [] # ds @ tail" and size: "SizedArray_size (wr_warr st) = connection_worker_arr_size"
    by (auto simp: stalled_def)
  from step W_Peek q(1) size obtain n out q' where
    pk: "deco_peek [] q (sa_elems (wr_warr st)) (word_of_nat connection_worker_arr_size) = Inr (n, out, q')"
    and st': "es = []" "st' = st\<lparr>wr_worker := (wr_worker st)\<lparr>cw_m_queue_for_writing := Some q'\<rparr>,
          wr_warr := SizedArray_resize ((wr_warr st)\<lparr>sa_elems := out\<rparr>) (unat n), wr_wpc := W_Check n\<rparr>"
    by (auto simp: thread_write_to_source_def rbind_eq_Inr Let_def)
  have len: "length (sa_elems (wr_warr st)) = connection_worker_arr_size"
    using size by (simp add: op_defs)
  note item = peek_item [OF q(2) len pk]
  from item q(3) have "n = 0" by auto
  moreover have "SizedArray_size ((wr_warr st)\<lparr>sa_elems := out\<rparr>) = connection_worker_arr_size"
    using item len by (simp add: op_defs)
  ultimately show ?thesis using st item q(3) by (auto simp: stalled_def st')
qed (use st step in \<open>auto simp: stalled_def thread_write_to_source_def Let_def split: if_splits\<close>)

lemma stalled_put:
  assumes "stalled st tr ds" and "unat n \<le> length buf" and "user_put st buf n = Inr (st', es)"
  shows "stalled st' (tr @ es) ds"
proof -
  from assms(1) obtain q where q: "cw_m_queue_for_writing (wr_worker st) = Some q" "deco_inv q"
    by (auto simp: stalled_def)
  with assms(3) obtain r q' where pt: "deco_put [] q buf n = Inr (r, q')"
    and st': "st' = st\<lparr>wr_worker := (wr_worker st)\<lparr>cw_m_queue_for_writing := Some q'\<rparr>\<rparr>"
      "es = (if deco_get_status q' = STATUS_QUEUEBASE_OK then [E_Produced (take (unat n) buf)] else [])"
    by (auto simp: user_put_def rbind_eq_Inr)
  show ?thesis
    using assms(1) q put_item [OF q(2) assms(2) pt]
    by (cases "deco_get_status q' = STATUS_QUEUEBASE_OK") (auto simp: stalled_def st')
qed

lemma stalled_steps:
  assumes "worker_steps ops wok st0 st tr" and "stalled st0 [] ds"
  shows "stalled st tr ds"
  using assms
proof (induction rule: worker_steps.induct)
  case ws_start
  then show ?case by simp
next
  case (ws_reader st tr ra st' es)
  show ?case
    by (rule stalled_frame [OF ws_reader.IH [OF ws_reader.prems]]) (fact reader_frame [OF ws_reader.hyps(2)])+
next
  case (ws_writer st tr wa st' es)
  show ?case by (rule stalled_writer [OF ws_writer.IH [OF ws_writer.prems] ws_writer.hyps(3)])
next
  case (ws_guard st tr st' es)
  then show ?case using stalled_frame [of st tr ds st' es] guard_frame [of st st' es] by simp
next
  case (ws_put st tr n buf st' es)
  then show ?case using stalled_put by blast
next
  case (ws_get st tr out st' es)
  then have "wr_wpc st' = wr_wpc st" "wr_warr st' = wr_warr st" "written es = []"
    "cw_m_queue_for_writing (wr_worker st') = cw_m_queue_for_writing (wr_worker st)"
    by (auto simp: user_get_def rbind_eq_Inr split: option.splits if_splits)
  with ws_get show ?case using stalled_frame by blast
next
  case (ws_stop st tr)
  then show ?case
    using stalled_frame [of st tr ds "st\<lparr>wr_worker := ConnectionWorker_stop (wr_worker st)\<rparr>" "[]"]
    by (simp add: ConnectionWorker_stop_def)
qed

subsection \<open>Statistics\<close>

datatype stat_op = Stat_sent u64 | Stat_recv u64 | Stat_query u64

fun stat_run :: "connection_worker \<Rightarrow> stat_op list \<Rightarrow> connection_statistics list \<times> connection_worker" where
  "stat_run w [] = ([], w)"
| "stat_run w (Stat_sent n # ops) = stat_run (w\<lparr>cw_m_statistics := add_sent n (cw_m_statistics w)\<rparr>) ops"
| "stat_run w (Stat_recv n # ops) = stat_run (w\<lparr>cw_m_statistics := add_recv n (cw_m_statistics w)\<rparr>) ops"
| "stat_run w (Stat_query t # ops) =
     (case get_connection_statistics t w of (s, w1) \<Rightarrow> case stat_run w1 ops of (ss, w2) \<Rightarrow> (s # ss, w2))"

definition stat_sum :: "(connection_statistics \<Rightarrow> u64) \<Rightarrow> connection_statistics list \<Rightarrow> u64" where
  "stat_sum f ss = sum_list (map f ss)"

lemma stat_run_sent:
  assumes "stat_run w ops = (ss, w')"
  shows "total_sent_bytes (cw_m_statistics w') =
    total_sent_bytes (cw_m_statistics w)
      + (stat_sum chunk_sent_bytes ss + chunk_sent_bytes (cw_m_statistics w') - chunk_sent_bytes (cw_m_statistics w))"
  using assms
proof (induction w ops arbitrary: ss w' rule: stat_run.induct)
  case (4 w t ops)
  then obtain ss1 where 1: "stat_run (snd (get_connection_statistics t w)) ops = (ss1, w')"
    and ss: "ss = cw_m_statistics w # ss1"
    by (auto simp: get_connection_statistics_def split: prod.splits)
  from 4(1) [OF prod.collapse 1] show ?case
    by (simp add: ss stat_sum_def get_connection_statistics_def)
qed (simp_all add: stat_sum_def add_sent_def add_recv_def)

lemma stat_run_recv:
  assumes "stat_run w ops = (ss, w')"
  shows "total_recv_bytes (cw_m_statistics w') =
    total_recv_bytes (cw_m_statistics w)
      + (stat_sum chunk_recv_bytes ss + chunk_recv_bytes (cw_m_statistics w') - chunk_recv_bytes (cw_m_statistics w))"
  using assms
proof (induction w ops arbitrary: ss w' rule: stat_run.induct)
  case (4 w t ops)
  then obtain ss1 where 1: "stat_run (snd (get_connection_statistics t w)) ops = (ss1, w')"
    and ss: "ss = cw_m_statistics w # ss1"
    by (auto simp: get_connection_statistics_def split: prod.splits)
  from 4(1) [OF prod.collapse 1] show ?case
    by (simp add: ss stat_sum_def get_connection_statistics_def)
qed (simp_all add: stat_sum_def add_sent_def add_recv_def)

end
