(* ===== verification/Source_Runs.thy ===== *)
theory Source_Runs
  imports Connection_Worker
begin

text \<open>
  Runs of a worker on any source: an invariant of the source becomes an invariant of the worker, and one round of the
  writing loop on a source that takes what it is given.
\<close>

subsection \<open>Invariants of the source of a worker\<close>

text \<open>
  A property \<open>P\<close> of the source, of the requests made so far and of the items written so far holds in
  every state of the worker, if both operations of the source keep it.
\<close>

context worker_source
begin

lemma steps_source_inv:
  assumes "worker_steps ops wok st0 st tr" and "writer_inv st0 []" and "P (wr_source st0) [] []"
    and rd: "\<And>s os ws buf ra r s' buf' es. P s os ws \<Longrightarrow> so_read ops s buf ra = Inr (r, s', buf', es) \<Longrightarrow>
      P s' (os @ es) ws"
    and wr: "\<And>s os ws buf wa r s' buf' es. P s os ws \<Longrightarrow> wok s buf wa \<Longrightarrow> sa_ok buf \<Longrightarrow> sa_data buf \<noteq> [] \<Longrightarrow>
      so_write ops s buf wa = Inr (r, s', buf', es) \<Longrightarrow>
      P s' (os @ es) (ws @ (if r > 0 then [sa_data buf] else []))"
  shows "P (wr_source st) (os_trace tr) (written tr)"
  using assms(1-3)
proof (induction rule: worker_steps.induct)
  case ws_start
  then show ?case by simp
next
  case (ws_reader st tr ra st' es)
  from ws_reader have IH: "P (wr_source st) (os_trace tr) (written tr)" by simp
  show ?case
  proof (cases "wr_rpc st = R_Read")
    case False
    with ws_reader.hyps(2) have "wr_source st' = wr_source st" "os_trace es = []"
      by (auto simp: thread_read_from_source_def Let_def rbind_eq_Inr put_reading_def
          split: read_pc.splits if_splits option.splits list.splits)
    with IH reader_frame(7) [OF ws_reader.hyps(2)] show ?thesis by simp
  next
    case True
    with ws_reader.hyps(2) obtain n arr' evs where
      call: "so_read ops (wr_source st) (wr_rarr st) ra = Inr (n, wr_source st', arr', evs)"
      and es: "es = os_events evs @ (if n > 0 then [E_Received (sa_data arr')] else [])"
      by (auto simp: thread_read_from_source_def Let_def rbind_eq_Inr)
    from rd [OF IH call] show ?thesis by (simp add: es)
  qed
next
  case (ws_writer st tr wa st' es)
  from ws_writer have IH: "P (wr_source st) (os_trace tr) (written tr)" by simp
  show ?case
  proof (cases "wr_wpc st = W_Write")
    case False
    with ws_writer.hyps(3) have "wr_source st' = wr_source st" "os_trace es = []" "written es = []"
      by (auto simp: thread_write_to_source_def Let_def rbind_eq_Inr split: write_pc.splits if_splits option.splits)
    with IH show ?thesis by simp
  next
    case True
    with ws_writer.hyps(3) obtain r arr' evs where
      call: "so_write ops (wr_source st) (wr_warr st) wa = Inr (r, wr_source st', arr', evs)"
      and es: "es = os_events evs @ (if r > 0 then [E_Written (sa_data (wr_warr st))] else [])"
      by (auto simp: thread_write_to_source_def Let_def rbind_eq_Inr split: if_splits)
    have "writer_inv st tr" by (rule steps_writer_inv [OF ws_writer.hyps(1) ws_writer.prems(1)])
    with True have "sa_ok (wr_warr st)" "sa_data (wr_warr st) \<noteq> []" by (auto simp: writer_inv_def)
    from wr [OF IH _ this call] ws_writer.hyps(2) True show ?thesis by (simp add: es split: if_splits)
  qed
next
  case (ws_guard st tr st' es)
  then have "wr_source st' = wr_source st" "os_trace es = []" "written es = []"
    by (auto simp: thread_guard_def split: if_splits)
  with ws_guard show ?case by simp
next
  case (ws_put st tr n buf st' es)
  then have "wr_source st' = wr_source st" "os_trace es = []" "written es = []"
    by (auto simp: user_put_def rbind_eq_Inr split: option.splits if_splits)
  with ws_put show ?case by simp
next
  case (ws_get st tr out st' es)
  then have "wr_source st' = wr_source st" "os_trace es = []" "written es = []"
    by (auto simp: user_get_def rbind_eq_Inr split: option.splits if_splits)
  with ws_get show ?case by simp
next
  case (ws_stop st tr)
  then show ?case by simp
qed

text \<open>What is written is a prefix of what the users have put into the queue.\<close>

lemma written_prefix:
  assumes "worker_steps ops wok (worker_started w s) st tr"
    and "fresh_queue (cw_m_queue_for_writing w)"
  shows "\<exists>q rest. cw_m_queue_for_writing (wr_worker st) = Some q \<and> written tr @ rest = produced tr
    \<and> (deco_cont q = [] \<longrightarrow> rest = [])"
proof -
  have "writer_inv st tr" by (rule steps_writer_inv [OF assms(1) started_writer_inv [OF assms(2)]])
  then obtain q where q: "cw_m_queue_for_writing (wr_worker st) = Some q"
    and get: "(\<exists>n. wr_wpc st = W_Get n) \<longrightarrow>
      (\<exists>d ds ws. deco_cont q = d # ds \<and> written tr = ws @ [d] \<and> produced tr = ws @ d # ds)"
    and other: "(\<forall>n. wr_wpc st \<noteq> W_Get n) \<longrightarrow> produced tr = written tr @ deco_cont q"
    unfolding writer_inv_def by - (elim exE conjE, rule that)
  show ?thesis
  proof (cases "\<exists>n. wr_wpc st = W_Get n")
    case True
    from get [rule_format, OF True] obtain d ds ws where
      "deco_cont q = d # ds" "written tr = ws @ [d]" "produced tr = ws @ d # ds" by blast
    with q show ?thesis by (intro exI [of _ q] exI [of _ ds]) simp
  next
    case False
    with other q show ?thesis by (intro exI [of _ q] exI [of _ "deco_cont q"]) simp
  qed
qed

end

subsection \<open>A round of the writing loop\<close>

text \<open>The writing thread is at its loop head, was not asked to leave, and the queue holds the items \<open>ds\<close>.\<close>

definition source_ready :: "'s \<Rightarrow> 's worker_run \<Rightarrow> bytes list \<Rightarrow> bool" where
  "source_ready s st ds \<longleftrightarrow> wr_wpc st = W_While \<and> \<not> writer_leaves (wr_worker st) \<and> wr_source st = s
     \<and> SizedArray_size (wr_warr st) = connection_worker_arr_size
     \<and> (\<exists>q. cw_m_queue_for_writing (wr_worker st) = Some q \<and> deco_inv q \<and> deco_cont q = ds)"

lemma source_round:
  assumes rd: "source_ready s st (f # ds)" and f: "f \<noteq> []"
    and whole: "\<And>arr. sa_ok arr \<Longrightarrow> sa_data arr = f \<Longrightarrow>
      so_write ops s arr wa = Inr (int (length f), s, SizedArray_clear arr, evs) \<and> wok s arr wa"
  shows "\<exists>st'. run_writer ops st [a, a, a, wa, a] = Inr (st', os_events evs @ [E_Written f]) \<and> source_ready s st' ds
    \<and> (\<forall>st0 tr. worker_steps ops wok st0 st tr \<longrightarrow>
          worker_steps ops wok st0 st' (tr @ os_events evs @ [E_Written f]))"
proof -
  from rd obtain q where q: "cw_m_queue_for_writing (wr_worker st) = Some q" "deco_inv q" "deco_cont q = f # ds"
    by (auto simp: source_ready_def)
  have st: "wr_wpc st = W_While" "\<not> writer_leaves (wr_worker st)" "wr_source st = s"
    "SizedArray_size (wr_warr st) = connection_worker_arr_size" using rd by (simp_all add: source_ready_def)
  have flags: "\<not> writer_leaves ((wr_worker st)\<lparr>cw_m_queue_for_writing := x\<rparr>)" for x
    using st(2) by (simp add: writer_leaves_def)
  have len: "length (sa_elems (wr_warr st)) = connection_worker_arr_size" using st(4) by (simp add: op_defs)
  have sz: "unat (word_of_nat connection_worker_arr_size :: u16) = 65535"
    by (simp add: connection_worker_arr_size_def)
  have lf: "length f < 65536" using dq.item_law [OF q(2)] q(3) by simp
  then have m: "min 65535 (length f) = length f" by simp
  let ?n = "word_of_nat (length f) :: u16"
  let ?out = "f @ drop (length f) (sa_elems (wr_warr st))"
  have n: "unat ?n = length f" "?n \<noteq> 0" using lf f by (auto simp: unat_of_nat unat_eq_0 [symmetric])
  obtain q1 where pk: "deco_peek [] q (sa_elems (wr_warr st)) (word_of_nat connection_worker_arr_size)
      = Inr (?n, ?out, q1)" "deco_inv q1" "deco_cont q1 = f # ds"
    using deco_peek_refines [OF q(2), of "word_of_nat connection_worker_arr_size" "sa_elems (wr_warr st)"]
      len sz q(3) m by (auto simp: fifo_peek_def Let_def connection_worker_arr_size_def)
  let ?arr = "SizedArray_resize ((wr_warr st)\<lparr>sa_elems := ?out\<rparr>) (length f)"
  have arr: "sa_data ?arr = f" "SizedArray_size ?arr = connection_worker_arr_size" "sa_ok ?arr"
    using len lf by (auto simp: sa_data_def sa_ok_def op_defs connection_worker_arr_size_def)
  note wr = whole [OF arr(3,1)]
  obtain r q2 where gt: "deco_get [] q1 (sa_elems (SizedArray_clear ?arr)) 0
      = Inr (r, sa_elems (SizedArray_clear ?arr), q2)" "deco_inv q2" "deco_cont q2 = ds"
    using deco_get_refines [OF pk(2), of 0 "sa_elems (SizedArray_clear ?arr)"] pk(3) by auto
  let ?w = "\<lambda>x. (wr_worker st)\<lparr>cw_m_queue_for_writing := Some x\<rparr>" and ?es = "os_events evs @ [E_Written f]"
  let ?s1 = "st\<lparr>wr_wpc := W_Peek\<rparr>"
  let ?s2 = "st\<lparr>wr_worker := ?w q1, wr_warr := ?arr, wr_wpc := W_Check ?n\<rparr>"
  let ?s3 = "st\<lparr>wr_worker := ?w q1, wr_warr := ?arr, wr_wpc := W_Write\<rparr>"
  let ?s4 = "st\<lparr>wr_worker := ?w q1, wr_warr := SizedArray_clear ?arr, wr_wpc := W_Get (int (length f))\<rparr>"
  have 1: "thread_write_to_source ops st a = Inr (?s1, [])"
    using st q(1) by (simp add: thread_write_to_source_def)
  have 2: "thread_write_to_source ops ?s1 a = Inr (?s2, [])"
    using st(4) q(1) pk(1) n(1) by (simp add: thread_write_to_source_def Let_def)
  have 3: "thread_write_to_source ops ?s2 a = Inr (?s3, [])"
    using n(2) flags by (simp add: thread_write_to_source_def)
  have "\<not> int (length f) < 0" "int (length f) \<noteq> 0" using f by simp_all
  then have 4: "thread_write_to_source ops ?s3 wa = Inr (?s4, ?es)"
    using wr arr(1) st(3) by (simp add: thread_write_to_source_def Let_def)
  obtain st' where 5: "thread_write_to_source ops ?s4 a = Inr (st', [])" "source_ready s st' ds"
    using gt arr(2) flags st(2,3)
    by (auto simp: thread_write_to_source_def Let_def source_ready_def writer_leaves_def)
  have "worker_steps ops wok st0 st' (tr @ ?es)" if r0: "worker_steps ops wok st0 st tr" for st0 tr
  proof -
    have "worker_steps ops wok st0 ?s1 tr" using ws_writer [OF r0 _ 1] st(1) by simp
    then have "worker_steps ops wok st0 ?s2 tr" using ws_writer [OF _ _ 2] by fastforce
    then have "worker_steps ops wok st0 ?s3 tr" using ws_writer [OF _ _ 3] by fastforce
    from ws_writer [OF this _ 4] have "worker_steps ops wok st0 ?s4 (tr @ ?es)" using wr st(3) by simp
    from ws_writer [OF this _ 5(1)] show ?thesis by simp
  qed
  with 1 2 3 4 5 show ?thesis by auto
qed

lemma run_writer_append:
  assumes "run_writer ops st as = Inr (st1, es1)" and "run_writer ops st1 bs = Inr (st2, es2)"
  shows "run_writer ops st (as @ bs) = Inr (st2, es1 @ es2)"
  using assms
proof (induction as arbitrary: st es1)
  case (Cons a as)
  then show ?case by (fastforce simp: rbind_eq_Inr)
qed simp

end
