(* ===== verification/Tcp_Socket.thy ===== *)
theory Tcp_Socket
  imports Os_Model
begin

text \<open>
  \<open>connections/network/TCPSocket.h\<close> and \<open>.cpp\<close>: one connected TCP socket. Every operation returns
  its value, the new socket, the caller's array and the events for the kernel. The members \<open>m_port\<close>,
  \<open>m_ip\<close> and \<open>m_write_buf\<close> are never used after construction; \<open>m_read_buf\<close> only carries bytes from
  \<open>recv\<close> to the caller's array. Console messages and the static byte counter are left out.
\<close>

datatype NetSocketStatus =
  TCPSOCKET_OK | TCPSOCKET_DESCRIPTOR_ERROR | TCPSOCKET_PROTOCOL_ERROR | TCPSOCKET_CLOSED
  | TCPSCOKET_CLOSED_BY_PEER

text \<open>\<open>sockaddr_in\<close>: both fields hold network byte order.\<close>

record sockaddr_in =
  sin_port :: u16
  sin_addr :: u32

record tcp_socket =
  ts_m_descr :: int
  ts_m_addrinfo :: sockaddr_in
  ts_m_status :: NetSocketStatus

definition NETSOCKET_ARRAY_SIZE :: nat where
  "NETSOCKET_ARRAY_SIZE = 65535"

definition TCPSocket_reset_status :: "tcp_socket \<Rightarrow> tcp_socket" where
  "TCPSocket_reset_status s = s\<lparr>ts_m_status := TCPSOCKET_OK\<rparr>"

text \<open>The answer of \<open>getpeername\<close> is the peer's address, or \<open>None\<close> for an error.\<close>

definition TCPSocket_set_descriptor :: "tcp_socket \<Rightarrow> int \<Rightarrow> sockaddr_in option \<Rightarrow> tcp_socket" where
  "TCPSocket_set_descriptor s descr peername =
     (let s1 = (TCPSocket_reset_status s)
                 \<lparr>ts_m_addrinfo := \<lparr>sin_port = 0, sin_addr = 0\<rparr>, ts_m_descr := descr\<rparr>
      in if ts_m_descr s1 > 0
         then case peername of
                Some a \<Rightarrow> s1\<lparr>ts_m_addrinfo := a\<rparr>
              | None \<Rightarrow> s1\<lparr>ts_m_status := TCPSOCKET_DESCRIPTOR_ERROR, ts_m_descr := -1\<rparr>
         else s1)"

definition TCPSocket_ctor :: "int \<Rightarrow> sockaddr_in option \<Rightarrow> tcp_socket" where
  "TCPSocket_ctor descr peername =
     TCPSocket_set_descriptor
       \<lparr>ts_m_descr = -1, ts_m_addrinfo = \<lparr>sin_port = 0, sin_addr = 0\<rparr>, ts_m_status = TCPSOCKET_OK\<rparr>
       descr peername"

definition TCPSocket_close_descriptor :: "tcp_socket \<Rightarrow> tcp_socket \<times> os_event list" where
  "TCPSocket_close_descriptor s =
     (let s1 = TCPSocket_reset_status s;
          (s2, es) = (if ts_m_descr s1 > 0 then (s1\<lparr>ts_m_descr := -1\<rparr>, [Ev_Close (ts_m_descr s1)])
                      else (s1, []))
      in (s2\<lparr>ts_m_status := TCPSOCKET_CLOSED\<rparr>, es))"

definition TCPSocket_read ::
  "tcp_socket \<Rightarrow> u8 sized_array \<Rightarrow> recv_answer \<Rightarrow> (int \<times> tcp_socket \<times> u8 sized_array \<times> os_event list) result" where
  "TCPSocket_read s buf0 ans =
     (let buf = SizedArray_resize (SizedArray_clear buf0) 0
      in if ts_m_status s \<noteq> TCPSOCKET_OK then Inr (-1, s, buf, [])
         else
           let s1 = TCPSocket_reset_status s
           in if ts_m_descr s1 > 0
              then case ans of
                Recv_error e \<Rightarrow>
                  if e = EAGAIN \<or> e = EINTR \<or> e = EWOULDBLOCK then Inr (0, s1, buf, [])
                  else case TCPSocket_close_descriptor (s1\<lparr>ts_m_status := TCPSOCKET_CLOSED\<rparr>) of
                         (s2, es) \<Rightarrow> Inr (-1, s2, buf, es)
              | Received bs \<Rightarrow>
                  if bs = []
                  then case TCPSocket_close_descriptor (s1\<lparr>ts_m_status := TCPSCOKET_CLOSED_BY_PEER\<rparr>) of
                         (s2, es) \<Rightarrow> Inr (-1, s2, buf, es)
                  else if NETSOCKET_ARRAY_SIZE < length bs then Inl Bad_Memory
                  else rbind (copy_to_front bs buf) (\<lambda>buf1.
                         Inr (int (length bs), s1, SizedArray_resize buf1 (length bs), []))
              else Inr (-1, s1\<lparr>ts_m_status := TCPSOCKET_DESCRIPTOR_ERROR\<rparr>, buf, []))"

text \<open>
  The loop of \<open>send\<close> calls: \<open>sent\<close> is \<open>sent_size\<close>, the list holds the kernel's answers. The result
  is the return value, the socket, the array, the events and the answers left; \<open>None\<close> while the
  thread is still waiting for an answer.
\<close>

fun TCPSocket_send_loop ::
  "tcp_socket \<Rightarrow> u8 sized_array \<Rightarrow> nat \<Rightarrow> send_answer list
    \<Rightarrow> (int \<times> tcp_socket \<times> u8 sized_array \<times> os_event list \<times> send_answer list) option" where
  "TCPSocket_send_loop s buf sent [] =
     (if sent < SizedArray_data_size buf then None
      else Some (int sent, s, SizedArray_clear buf, [], []))"
| "TCPSocket_send_loop s buf sent (a # as) =
     (if sent < SizedArray_data_size buf
      then case a of
        Send_error e \<Rightarrow>
          if e = EAGAIN \<or> e = ENOBUFS then Some (0, s, buf, [], as)
          else (case TCPSocket_close_descriptor (s\<lparr>ts_m_status := TCPSOCKET_CLOSED\<rparr>) of
                  (s', es) \<Rightarrow> Some (-1, s', buf, es, as))
      | Sent n \<Rightarrow>
          (case TCPSocket_send_loop s buf (sent + n) as of
             None \<Rightarrow> None
           | Some (r, s', buf', es, as') \<Rightarrow>
               Some (r, s', buf', Ev_Send (ts_m_descr s) (take n (drop sent (sa_data buf))) # es, as'))
      else Some (int sent, s, SizedArray_clear buf, [], a # as))"

definition TCPSocket_write ::
  "tcp_socket \<Rightarrow> u8 sized_array \<Rightarrow> send_answer list
    \<Rightarrow> (int \<times> tcp_socket \<times> u8 sized_array \<times> os_event list \<times> send_answer list) option" where
  "TCPSocket_write s buf as =
     (if ts_m_status s \<noteq> TCPSOCKET_OK then Some (-1, s, buf, [], as)
      else
        let s1 = TCPSocket_reset_status s
        in if ts_m_descr s1 > 0 then TCPSocket_send_loop s1 buf 0 as
           else Some (-1, s1\<lparr>ts_m_status := TCPSOCKET_DESCRIPTOR_ERROR\<rparr>, buf, [], as))"

definition TCPSocket_dtor :: "tcp_socket \<Rightarrow> tcp_socket \<times> os_event list" where
  "TCPSocket_dtor s =
     (if ts_m_descr s \<noteq> 0
      then case TCPSocket_close_descriptor s of (s', es) \<Rightarrow> (s', Ev_Shutdown (ts_m_descr s) # es)
      else (s, []))"

text \<open>
  The callback that a server or a client hands its sockets to: the default one of the class, or the user's.
\<close>

datatype socket_callback = Default_callback | User_callback

subsection \<open>Accessors\<close>

definition TCPSocket_get_port :: "tcp_socket \<Rightarrow> u16" where
  "TCPSocket_get_port s = sin_port (ts_m_addrinfo s)"

definition TCPSocket_get_IP :: "tcp_socket \<Rightarrow> u32" where
  "TCPSocket_get_IP s = sin_addr (ts_m_addrinfo s)"

definition TCPSocket_get_socket_descriptor :: "tcp_socket \<Rightarrow> int" where
  "TCPSocket_get_socket_descriptor s = ts_m_descr s"

definition TCPSocket_status :: "tcp_socket \<Rightarrow> NetSocketStatus" where
  "TCPSocket_status s = ts_m_status s"

text \<open>
  \<open>inet_ntoa\<close> of the C library writes the four octets of an address, in the order they lie in memory, as
  decimals into a static buffer and ends them with a null character; \<open>buffer\<close> is what the buffer held.
  \<open>get_IP_str\<close> builds its string from a fixed number of characters of the buffer.
\<close>

definition decimal_digit :: "nat \<Rightarrow> char" where
  "decimal_digit k = char_of (48 + k)"

definition octet_text :: "u8 \<Rightarrow> string" where
  "octet_text b =
     (let n = unat b in
      if n < 10 then [decimal_digit n]
      else if n < 100 then [decimal_digit (n div 10), decimal_digit (n mod 10)]
      else [decimal_digit (n div 100), decimal_digit (n div 10 mod 10), decimal_digit (n mod 10)])"

fun dotted_text :: "u8 list \<Rightarrow> string" where
  "dotted_text [] = []"
| "dotted_text [b] = octet_text b"
| "dotted_text (b # bs) = octet_text b @ CHR ''.'' # dotted_text bs"

definition inet_ntoa :: "string \<Rightarrow> u32 \<Rightarrow> string" where
  "inet_ntoa buffer a =
     (let text = dotted_text (le32_bytes a)
      in text @ CHR 0x00 # drop (Suc (length text)) buffer)"

definition INET_ADDRSTRLEN :: nat where
  "INET_ADDRSTRLEN = 16"

definition TCPSocket_get_IP_str :: "string \<Rightarrow> tcp_socket \<Rightarrow> string" where
  "TCPSocket_get_IP_str buffer s = take INET_ADDRSTRLEN (inet_ntoa buffer (sin_addr (ts_m_addrinfo s)))"

text \<open>The closing \<open>return\<close> of the source is for values that name no status.\<close>

fun TCPSocket_get_status_string :: "NetSocketStatus \<Rightarrow> string" where
  "TCPSocket_get_status_string TCPSOCKET_OK = ''TCPSocket status OK''"
| "TCPSocket_get_status_string TCPSOCKET_DESCRIPTOR_ERROR = ''TCPSocket descriptor error''"
| "TCPSocket_get_status_string TCPSOCKET_PROTOCOL_ERROR = ''TCPSocket protocol error''"
| "TCPSocket_get_status_string TCPSOCKET_CLOSED = ''TCPSocket closed''"
| "TCPSocket_get_status_string TCPSCOKET_CLOSED_BY_PEER = ''TCPSocket closed by peer''"

declare TCPSocket_reset_status_def [op_defs]

subsection \<open>The text of an address\<close>

lemma octet_text_length: "1 \<le> length (octet_text b) \<and> length (octet_text b) \<le> 3"
  by (simp add: octet_text_def Let_def)

lemma decimal_digit_neq: "k < 10 \<Longrightarrow> decimal_digit k \<noteq> CHR 0x00"
proof
  assume "k < 10" "decimal_digit k = CHR 0x00"
  then have "(of_char (decimal_digit k) :: nat) = of_char (CHR 0x00)" by simp
  with \<open>k < 10\<close> show False by (simp add: decimal_digit_def)
qed

lemma octet_text_chars: "CHR 0x00 \<notin> set (octet_text b)"
proof -
  have "unat b div 100 < 10" using unat_u8_less [of b] by linarith
  moreover have "unat b < 100 \<Longrightarrow> unat b div 10 < 10" by simp
  ultimately show ?thesis
    using decimal_digit_neq [of "unat b div 100"] decimal_digit_neq [of "unat b div 10"]
      decimal_digit_neq [of "unat b div 10 mod 10"] decimal_digit_neq [of "unat b mod 10"] decimal_digit_neq [of "unat b"]
    by (auto simp: octet_text_def Let_def)
qed

lemma dotted_text_four:
  "length (dotted_text [a, b, c, d]) \<le> 15" "CHR 0x00 \<notin> set (dotted_text [a, b, c, d])"
  using octet_text_length [of a] octet_text_length [of b] octet_text_length [of c] octet_text_length [of d]
    octet_text_chars [of a] octet_text_chars [of b] octet_text_chars [of c] octet_text_chars [of d]
  by auto

subsection \<open>What a write puts on the wire\<close>

text \<open>A kernel takes at most the bytes it is given.\<close>

fun sends_fit :: "nat \<Rightarrow> send_answer list \<Rightarrow> bool" where
  "sends_fit k [] = True"
| "sends_fit k (Sent n # as) = (n \<le> k \<and> sends_fit (k - n) as)"
| "sends_fit k (Send_error e # as) = True"

lemma close_open: "ts_m_descr s > 0 \<Longrightarrow> TCPSocket_close_descriptor s =
    (s\<lparr>ts_m_descr := -1, ts_m_status := TCPSOCKET_CLOSED\<rparr>, [Ev_Close (ts_m_descr s)])"
  by (simp add: TCPSocket_close_descriptor_def op_defs Let_def)

definition closed_socket :: "tcp_socket \<Rightarrow> tcp_socket" where
  "closed_socket s = s\<lparr>ts_m_descr := -1, ts_m_status := TCPSOCKET_CLOSED\<rparr>"

lemma closed_socket_status [simp]: "closed_socket (s\<lparr>ts_m_status := st\<rparr>) = closed_socket s"
  by (simp add: closed_socket_def)

text \<open>
  The outcomes of a write of the array \<open>buf\<close>, of which \<open>sent\<close> bytes have been sent: the rest is sent
  and the array cleared; or only \<open>j\<close> more bytes are, the array is kept, and either the caller is
  asked to retry or the socket is closed.
\<close>

type_synonym write_result = "int \<times> tcp_socket \<times> u8 sized_array \<times> os_event list \<times> send_answer list"

definition sent_all :: "tcp_socket \<Rightarrow> u8 sized_array \<Rightarrow> nat \<Rightarrow> write_result \<Rightarrow> bool" where
  "sent_all s buf sent = (\<lambda>(r, s', buf', es, as').
     r = int (SizedArray_data_size buf) \<and> s' = s \<and> buf' = SizedArray_clear buf
     \<and> wire (ts_m_descr s) es = drop sent (sa_data buf) \<and> closes (ts_m_descr s) es = 0)"

definition sent_part :: "tcp_socket \<Rightarrow> u8 sized_array \<Rightarrow> nat \<Rightarrow> nat \<Rightarrow> write_result \<Rightarrow> bool" where
  "sent_part s buf sent j = (\<lambda>(r, s', buf', es, as').
     sent + j < SizedArray_data_size buf \<and> buf' = buf
     \<and> wire (ts_m_descr s) es = take j (drop sent (sa_data buf))
     \<and> (r = 0 \<and> s' = s \<and> closes (ts_m_descr s) es = 0
        \<or> r = -1 \<and> s' = closed_socket s \<and> closes (ts_m_descr s) es = 1))"

lemma sent_all_Sent:
  assumes "sent_all s buf (sent + n) (r, s', buf', es, as')"
  shows "sent_all s buf sent
    (r, s', buf', Ev_Send (ts_m_descr s) (take n (drop sent (sa_data buf))) # es, as')"
proof -
  have "take n (drop sent (sa_data buf)) @ drop (sent + n) (sa_data buf) = drop sent (sa_data buf)"
    by (metis append_take_drop_id drop_drop add.commute)
  with assms show ?thesis by (simp add: sent_all_def)
qed

lemma sent_part_Sent:
  assumes "sent_part s buf (sent + n) j (r, s', buf', es, as')"
  shows "sent_part s buf sent (n + j)
    (r, s', buf', Ev_Send (ts_m_descr s) (take n (drop sent (sa_data buf))) # es, as')"
proof -
  have "take n (drop sent (sa_data buf)) @ take j (drop (sent + n) (sa_data buf))
      = take (n + j) (drop sent (sa_data buf))"
    by (metis take_add drop_drop add.commute)
  with assms show ?thesis by (auto simp: sent_part_def)
qed

lemma send_loop_outcome:
  assumes "sa_ok buf" and "ts_m_descr s > 0" and "sent \<le> SizedArray_data_size buf"
    and "sends_fit (SizedArray_data_size buf - sent) as"
    and "TCPSocket_send_loop s buf sent as = Some res"
  shows "sent_all s buf sent res \<or> (\<exists>j. sent_part s buf sent j res)"
  using assms(3-)
proof (induction as arbitrary: sent res)
  case Nil
  then show ?case
    using length_sa_data [OF assms(1)] by (auto simp: sent_all_def split: if_splits)
next
  case (Cons a as)
  note len = length_sa_data [OF assms(1)]
  show ?case
  proof (cases "sent < SizedArray_data_size buf")
    case False
    with Cons.prems len show ?thesis by (auto simp: sent_all_def)
  next
    case True
    show ?thesis
    proof (cases a)
      case (Send_error e)
      with Cons.prems True assms(2) have "sent_part s buf sent 0 res"
        by (auto simp: sent_part_def close_open closed_socket_def split: if_splits)
      then show ?thesis by blast
    next
      case (Sent n)
      with Cons.prems True obtain r s' buf' es as' where
        loop: "TCPSocket_send_loop s buf (sent + n) as = Some (r, s', buf', es, as')" and
        res: "res = (r, s', buf', Ev_Send (ts_m_descr s) (take n (drop sent (sa_data buf))) # es, as')"
        by (auto split: option.splits)
      have "sent + n \<le> SizedArray_data_size buf" "sends_fit (SizedArray_data_size buf - (sent + n)) as"
        using Cons.prems Sent True by auto
      from Cons.IH [OF this loop] show ?thesis
        unfolding res using sent_all_Sent sent_part_Sent by blast
    qed
  qed
qed

lemma write_outcome:
  assumes "sa_ok buf" and "ts_m_status s = TCPSOCKET_OK" and "ts_m_descr s > 0"
    and "sends_fit (SizedArray_data_size buf) as" and "TCPSocket_write s buf as = Some res"
  shows "sent_all s buf 0 res \<or> (\<exists>j. sent_part s buf 0 j res)"
proof -
  have "TCPSocket_reset_status s = s" using assms(2) by (simp add: op_defs)
  then have "TCPSocket_send_loop s buf 0 as = Some res"
    using assms(2,3,5) by (simp add: TCPSocket_write_def)
  then show ?thesis using send_loop_outcome [OF assms(1,3), of 0] assms(4) by simp
qed

lemma send_loop_returns:
  assumes "list_all (\<lambda>a. \<exists>n. a = Sent (Suc n)) as" and "SizedArray_data_size buf \<le> sent + length as"
  shows "TCPSocket_send_loop s buf sent as \<noteq> None"
  using assms
  by (induction as arbitrary: sent) (auto split: option.splits)

subsection \<open>The life of a socket\<close>

text \<open>
  The states a socket constructed on descriptor \<open>d\<close> passes through, with all events so far: any
  sequence of reads and writes, with any arrays and any answers of the kernel.
\<close>

inductive tcp_reach :: "int \<Rightarrow> sockaddr_in option \<Rightarrow> tcp_socket \<Rightarrow> os_event list \<Rightarrow> bool"
  for d :: int and peername :: "sockaddr_in option" where
  tcp_start: "tcp_reach d peername (TCPSocket_ctor d peername) []"
| tcp_read: "tcp_reach d peername s es \<Longrightarrow> TCPSocket_read s buf ans = Inr (r, s', buf', es') \<Longrightarrow>
    tcp_reach d peername s' (es @ es')"
| tcp_write: "tcp_reach d peername s es \<Longrightarrow> TCPSocket_write s buf as = Some (r, s', buf', es', as') \<Longrightarrow>
    tcp_reach d peername s' (es @ es')"

text \<open>A read or a write leaves the socket as it was, or closes its open descriptor.\<close>

definition kept_or_closed :: "tcp_socket \<Rightarrow> tcp_socket \<Rightarrow> os_event list \<Rightarrow> bool" where
  "kept_or_closed s s' es \<longleftrightarrow>
     s' = s \<and> (\<forall>d. closes d es = 0)
   \<or> s' = s\<lparr>ts_m_status := TCPSOCKET_DESCRIPTOR_ERROR\<rparr> \<and> ts_m_status s = TCPSOCKET_OK
       \<and> \<not> ts_m_descr s > 0 \<and> (\<forall>d. closes d es = 0)
   \<or> s' = closed_socket s \<and> ts_m_descr s > 0
       \<and> (\<forall>d. closes d es = (if d = ts_m_descr s then 1 else 0))"

lemma read_kept_or_closed:
  assumes "TCPSocket_read s buf ans = Inr (r, s', buf', es)"
  shows "kept_or_closed s s' es"
proof (cases "ts_m_status s = TCPSOCKET_OK")
  case True
  then have "TCPSocket_reset_status s = s" by (simp add: op_defs)
  with assms True show ?thesis
    by (auto simp: TCPSocket_read_def Let_def close_open rbind_eq_Inr kept_or_closed_def
        closed_socket_def split: if_splits recv_answer.splits)
next
  case False
  with assms show ?thesis by (simp add: TCPSocket_read_def Let_def kept_or_closed_def)
qed

lemma kept_or_closed_simps [simp]:
  "kept_or_closed s s []" "kept_or_closed s s' (Ev_Send d bs # es) = kept_or_closed s s' es"
  "ts_m_descr s > 0 \<Longrightarrow> kept_or_closed s (closed_socket s) [Ev_Close (ts_m_descr s)]"
  by (simp_all add: kept_or_closed_def)

lemma send_loop_kept_or_closed:
  assumes "TCPSocket_send_loop s buf sent as = Some (r, s', buf', es, as')" and "ts_m_descr s > 0"
  shows "kept_or_closed s s' es"
  using assms(1)
proof (induction as arbitrary: sent r s' buf' es as')
  case Nil
  then show ?case by (simp split: if_splits)
next
  case (Cons a as)
  show ?case
  proof (cases a)
    case (Sent n)
    with Cons show ?thesis by (auto split: if_splits option.splits)
  next
    case (Send_error e)
    then show ?thesis
      using Cons.prems assms(2)
      by (auto simp: close_open closed_socket_def [symmetric] split: if_splits)
  qed
qed

lemma write_kept_or_closed:
  assumes "TCPSocket_write s buf as = Some (r, s', buf', es, as')"
  shows "kept_or_closed s s' es"
proof (cases "ts_m_status s = TCPSOCKET_OK")
  case True
  then have "TCPSocket_reset_status s = s" by (simp add: op_defs)
  with assms True show ?thesis
    by (auto simp: TCPSocket_write_def send_loop_kept_or_closed split: if_splits)
      (simp add: kept_or_closed_def)
next
  case False
  with assms show ?thesis by (simp add: TCPSocket_write_def kept_or_closed_def)
qed

definition life_inv :: "int \<Rightarrow> sockaddr_in option \<Rightarrow> tcp_socket \<Rightarrow> os_event list \<Rightarrow> bool" where
  "life_inv d peername s es \<longleftrightarrow>
     (case peername of
        Some a \<Rightarrow> ts_m_descr s = d \<and> ts_m_status s = TCPSOCKET_OK \<and> closes d es = 0
           \<or> ts_m_descr s = -1 \<and> ts_m_status s = TCPSOCKET_CLOSED \<and> closes d es = 1
      | None \<Rightarrow> ts_m_descr s = -1 \<and> ts_m_status s = TCPSOCKET_DESCRIPTOR_ERROR \<and> closes d es = 0)"

lemma life_inv_step:
  assumes "d > 0" and "life_inv d peername s es" and "kept_or_closed s s' es'"
  shows "life_inv d peername s' (es @ es')"
  using assms
  by (auto simp: life_inv_def kept_or_closed_def closed_socket_def split: option.splits)

lemma tcp_reach_inv:
  assumes "d > 0" and "tcp_reach d peername s es"
  shows "life_inv d peername s es"
  using assms(2)
proof (induction rule: tcp_reach.induct)
  case tcp_start
  then show ?case
    using assms(1)
    by (auto simp: life_inv_def TCPSocket_ctor_def TCPSocket_set_descriptor_def Let_def op_defs
        split: option.splits)
next
  case (tcp_read s es buf ans r s' buf' es')
  then show ?case using life_inv_step [OF assms(1)] read_kept_or_closed by blast
next
  case (tcp_write s es buf as r s' buf' es' as')
  then show ?case using life_inv_step [OF assms(1)] write_kept_or_closed by blast
qed

definition demo_array :: "u8 sized_array" where
  "demo_array = \<lparr>sa_elems = [1, 2, 3, 0], sa_m_data_size = 3\<rparr>"

definition demo_socket :: tcp_socket where
  "demo_socket = TCPSocket_ctor 5 (Some \<lparr>sin_port = 0x901F, sin_addr = 1\<rparr>)"

lemma demo_simps [simp]:
  "sa_ok demo_array" "SizedArray_data_size demo_array = 3" "sa_data demo_array = [1, 2, 3]"
  "SizedArray_size demo_array = 4"
  "ts_m_status demo_socket = TCPSOCKET_OK" "ts_m_descr demo_socket = 5"
  "sin_port (ts_m_addrinfo demo_socket) = 0x901F"
  by (simp_all add: demo_array_def demo_socket_def sa_ok_def sa_data_def op_defs TCPSocket_ctor_def
      TCPSocket_set_descriptor_def Let_def)

lemma demo_reset [simp]: "TCPSocket_reset_status demo_socket = demo_socket"
  by (simp add: TCPSocket_reset_status_def)

subsection \<open>Properties\<close>

text \<open>
  C26. A write on an open socket, on every branch, for any answers of a kernel that takes at most what
  it is given: either it returns the size of the data, all of the data went out in order and the
  array is cleared; or a proper prefix of the data went out, the array is kept, and the result is 0
  (try again, socket unchanged) or -1 (the descriptor was closed, once).
\<close>

theorem TCPSocket_write_behaviour:
  assumes "sa_ok buf" and "ts_m_status s = TCPSOCKET_OK" and "ts_m_descr s > 0"
    and "sends_fit (SizedArray_data_size buf) as"
    and "TCPSocket_write s buf as = Some (r, s', buf', es, as')"
  shows "r = int (SizedArray_data_size buf) \<and> wire (ts_m_descr s) es = sa_data buf \<and> s' = s
      \<and> buf' = SizedArray_clear buf
    \<or> (\<exists>j < SizedArray_data_size buf. wire (ts_m_descr s) es = take j (sa_data buf) \<and> buf' = buf
        \<and> (r = 0 \<and> s' = s \<or>
            r = -1 \<and> ts_m_descr s' = -1 \<and> ts_m_status s' = TCPSOCKET_CLOSED \<and> closes (ts_m_descr s) es = 1))"
  using write_outcome [OF assms]
  by (auto simp: sent_all_def sent_part_def closed_socket_def)

theorem TCPSocket_write_behaviour_witness:
  "TCPSocket_write demo_socket demo_array [Sent 2, Send_error ENOENT] =
     Some (-1, closed_socket demo_socket, demo_array, [Ev_Send 5 [1, 2], Ev_Close 5], [])
   \<and> closes 5 [Ev_Send 5 [1, 2], Ev_Close 5] = 1"
proof -
  have w: "TCPSocket_write demo_socket demo_array [Sent 2, Send_error ENOENT] =
     Some (-1, closed_socket demo_socket, demo_array, [Ev_Send 5 [1, 2], Ev_Close 5], [])"
    by (simp add: TCPSocket_write_def close_open closed_socket_def)
  from TCPSocket_write_behaviour [OF _ _ _ _ this] w show ?thesis by simp
qed

text \<open>
  C34. A caller that repeats a write after 0, as the writing thread of a worker does, sends the bytes
  that had already gone out a second time: after the repeated write succeeds, the peer has received
  the prefix of the first attempt followed by the whole data, which is not the data whenever that
  prefix is not empty.
\<close>

theorem TCPSocket_retry_duplicates:
  assumes "sa_ok buf" and "ts_m_status s = TCPSOCKET_OK" and "ts_m_descr s > 0"
    and "sends_fit (SizedArray_data_size buf) as"
    and "TCPSocket_write s buf as = Some (0, s1, buf1, es1, as1)"
    and "0 < SizedArray_data_size buf" and "sends_fit (SizedArray_data_size buf) as1"
    and "TCPSocket_write s1 buf1 as1 = Some (r, s2, buf2, es2, as2)" and "0 < r"
  shows "wire (ts_m_descr s) (es1 @ es2) = wire (ts_m_descr s) es1 @ sa_data buf
    \<and> (\<exists>j < SizedArray_data_size buf. wire (ts_m_descr s) es1 = take j (sa_data buf))
    \<and> (wire (ts_m_descr s) es1 \<noteq> [] \<longrightarrow> wire (ts_m_descr s) (es1 @ es2) \<noteq> sa_data buf)"
proof -
  have 1: "s1 = s" "buf1 = buf" "\<exists>j < SizedArray_data_size buf. wire (ts_m_descr s) es1 = take j (sa_data buf)"
    using write_outcome [OF assms(1-5)] assms(6) by (auto simp: sent_all_def sent_part_def)
  have "wire (ts_m_descr s) es2 = sa_data buf"
    using write_outcome [OF assms(1-3,7)] assms(8,9) 1(1,2) by (auto simp: sent_all_def sent_part_def)
  with 1 show ?thesis by simp
qed

theorem TCPSocket_retry_duplicates_witness:
  "\<exists>es1 es2. TCPSocket_write demo_socket demo_array [Sent 2, Send_error EAGAIN, Sent 3]
       = Some (0, demo_socket, demo_array, es1, [Sent 3])
     \<and> TCPSocket_write demo_socket demo_array [Sent 3] = Some (3, demo_socket, SizedArray_clear demo_array, es2, [])
     \<and> wire 5 (es1 @ es2) = [1, 2, 1, 2, 3] \<and> wire 5 (es1 @ es2) \<noteq> sa_data demo_array"
proof -
  have 1: "TCPSocket_write demo_socket demo_array [Sent 2, Send_error EAGAIN, Sent 3]
      = Some (0, demo_socket, demo_array, [Ev_Send 5 [1, 2]], [Sent 3])"
    by (simp add: TCPSocket_write_def)
  have 2: "TCPSocket_write demo_socket demo_array [Sent 3]
      = Some (3, demo_socket, SizedArray_clear demo_array, [Ev_Send 5 [1, 2, 3]], [])"
    by (simp add: TCPSocket_write_def)
  from TCPSocket_retry_duplicates [OF _ _ _ _ 1 _ _ 2] 1 2 show ?thesis by simp
qed

text \<open>
  The sending loop ends: when every answer of the kernel takes at least one byte, a write returns
  after at most as many \<open>send\<close> calls as there are bytes.
\<close>

theorem TCPSocket_write_returns:
  assumes "list_all (\<lambda>a. \<exists>n. a = Sent (Suc n)) as" and "SizedArray_data_size buf \<le> length as"
  shows "\<exists>res. TCPSocket_write s buf as = Some res"
  using send_loop_returns [OF assms(1), of buf 0] assms(2)
  by (auto simp: TCPSocket_write_def Let_def)

theorem TCPSocket_write_returns_witness:
  "\<exists>res. TCPSocket_write demo_socket demo_array [Sent 1, Sent 1, Sent 1] = Some res"
  by (rule TCPSocket_write_returns) simp_all

text \<open>
  Whatever sequence of reads and writes a socket goes through before its destructor runs, the
  descriptor it was constructed on is closed exactly once; but when \<open>getpeername\<close> fails in the
  constructor the descriptor is forgotten and never closed.
\<close>

theorem TCPSocket_closes_descriptor_once:
  assumes "d > 0" and "tcp_reach d peername s es" and "TCPSocket_dtor s = (s', es')"
  shows "closes d (es @ es') = (case peername of Some a \<Rightarrow> 1 | None \<Rightarrow> 0)
    \<and> ts_m_status s' = TCPSOCKET_CLOSED"
  using tcp_reach_inv [OF assms(1,2)] assms(1,3)
  by (auto simp: life_inv_def TCPSocket_dtor_def TCPSocket_close_descriptor_def op_defs Let_def
      split: option.splits if_splits)

theorem TCPSocket_closes_descriptor_once_witness:
  "closes 5 ([] @ snd (TCPSocket_dtor demo_socket)) = 1
   \<and> closes 5 ([] @ snd (TCPSocket_dtor (TCPSocket_ctor 5 None))) = 0"
  using TCPSocket_closes_descriptor_once [OF _ tcp_start, of 5 "Some \<lparr>sin_port = 0x901F, sin_addr = 1\<rparr>"]
    TCPSocket_closes_descriptor_once [OF _ tcp_start, of 5 None]
  by (metis demo_socket_def option.simps(4,5) prod.collapse zero_less_numeral)

text \<open>
  The status "closed by peer" is never visible: after an orderly shutdown by the peer, \<open>read\<close>
  sets it and then calls \<open>close_descriptor\<close>, which overwrites it with "closed".
\<close>

theorem TCPSocket_never_closed_by_peer:
  assumes "d > 0" and "tcp_reach d peername s es"
  shows "TCPSocket_status s \<noteq> TCPSCOKET_CLOSED_BY_PEER
    \<and> (TCPSocket_status s = TCPSOCKET_OK \<longrightarrow>
        (\<forall>buf. \<exists>s' buf'. TCPSocket_read s buf (Received []) = Inr (-1, s', buf', [Ev_Close d])
           \<and> TCPSocket_status s' = TCPSOCKET_CLOSED))"
proof -
  have *: "ts_m_status s \<noteq> TCPSCOKET_CLOSED_BY_PEER"
    and d: "ts_m_status s = TCPSOCKET_OK \<Longrightarrow> ts_m_descr s = d"
    using tcp_reach_inv [OF assms] by (auto simp: life_inv_def split: option.splits)
  with assms(1) show ?thesis
    by (auto simp: TCPSocket_status_def TCPSocket_read_def Let_def op_defs close_open)
qed

theorem TCPSocket_never_closed_by_peer_witness:
  "\<exists>s' buf'. TCPSocket_read demo_socket demo_array (Received []) = Inr (-1, s', buf', [Ev_Close 5])
     \<and> TCPSocket_status s' = TCPSOCKET_CLOSED"
  using TCPSocket_never_closed_by_peer [OF _ tcp_start, of 5 "Some \<lparr>sin_port = 0x901F, sin_addr = 1\<rparr>"]
  by (simp add: demo_socket_def [symmetric] TCPSocket_status_def)

text \<open>
  \<open>get_IP_str\<close> returns the address and more: whatever the static buffer held, the result has 16 characters;
  up to its first null character it is the dotted text of the address, which has at most 15, so the result is
  never that text, and what follows the null character is what earlier calls left in the buffer.
\<close>

theorem TCPSocket_get_IP_str_padded:
  assumes "16 \<le> length buffer"
  shows "length (TCPSocket_get_IP_str buffer s) = 16
    \<and> takeWhile (\<lambda>c. c \<noteq> CHR 0x00) (TCPSocket_get_IP_str buffer s) = dotted_text (le32_bytes (TCPSocket_get_IP s))
    \<and> TCPSocket_get_IP_str buffer s \<noteq> dotted_text (le32_bytes (TCPSocket_get_IP s))"
proof -
  let ?t = "dotted_text (le32_bytes (TCPSocket_get_IP s))"
  obtain a b c d where "le32_bytes (TCPSocket_get_IP s) = [a, b, c, d]" by (simp add: le32_bytes_def)
  then have t: "length ?t \<le> 15" "CHR 0x00 \<notin> set ?t" using dotted_text_four by simp_all
  have r: "TCPSocket_get_IP_str buffer s = ?t @ CHR 0x00 # take (15 - length ?t) (drop (Suc (length ?t)) buffer)"
    using t(1) by (simp add: TCPSocket_get_IP_str_def inet_ntoa_def TCPSocket_get_IP_def INET_ADDRSTRLEN_def
        Let_def take_Cons' Suc_diff_le)
  have "takeWhile (\<lambda>c. c \<noteq> CHR 0x00) (?t @ CHR 0x00 # xs) = ?t" for xs
    using t(2) by (subst takeWhile_append2) auto
  moreover have "length (TCPSocket_get_IP_str buffer s) = 16" unfolding r using t(1) assms by simp
  ultimately show ?thesis using t(1) r by fastforce
qed

theorem TCPSocket_get_IP_str_padded_witness:
  "dotted_text (le32_bytes 0x0100007F) = ''127.0.0.1''
   \<and> TCPSocket_get_IP_str (replicate 18 CHR 0x00) (TCPSocket_ctor 5 (Some \<lparr>sin_port = 0, sin_addr = 0x0100007F\<rparr>))
       \<noteq> ''127.0.0.1''"
proof -
  have "dotted_text (le32_bytes 0x0100007F) = ''127.0.0.1''"
    by (simp add: le32_bytes_def octet_text_def Let_def decimal_digit_def char_of_def bit_0)
  moreover have "TCPSocket_get_IP (TCPSocket_ctor 5 (Some \<lparr>sin_port = 0, sin_addr = 0x0100007F\<rparr>)) = 0x0100007F"
    by (simp add: TCPSocket_get_IP_def TCPSocket_ctor_def TCPSocket_set_descriptor_def op_defs Let_def)
  ultimately show ?thesis
    using TCPSocket_get_IP_str_padded [of "replicate 18 CHR 0x00"
        "TCPSocket_ctor 5 (Some \<lparr>sin_port = 0, sin_addr = 0x0100007F\<rparr>)"] by simp
qed

text \<open>
  A read on an open socket, on every branch: received bytes arrive unchanged as the data of the
  array and their number is returned; an interrupted or empty wait returns 0 with an empty array and
  the socket unchanged; an error or the end of the stream returns -1 and closes the descriptor.
\<close>

theorem TCPSocket_read_behaviour:
  assumes "ts_m_status s = TCPSOCKET_OK" and "ts_m_descr s > 0" and "SizedArray_size buf = NETSOCKET_ARRAY_SIZE"
    and "case ans of Received bs \<Rightarrow> length bs \<le> NETSOCKET_ARRAY_SIZE | Recv_error e \<Rightarrow> True"
  shows "\<exists>r s' buf' es. TCPSocket_read s buf ans = Inr (r, s', buf', es) \<and>
    (case ans of
       Received bs \<Rightarrow> sa_data buf' = bs \<and>
         (if bs = [] then r = -1 \<and> s' = closed_socket s \<and> es = [Ev_Close (ts_m_descr s)]
          else r = int (length bs) \<and> s' = s \<and> es = [])
     | Recv_error e \<Rightarrow> sa_data buf' = [] \<and>
         (if e \<in> {EAGAIN, EINTR} then r = 0 \<and> s' = s \<and> es = []
          else r = -1 \<and> s' = closed_socket s \<and> es = [Ev_Close (ts_m_descr s)]))"
proof -
  have reset: "TCPSocket_reset_status s = s" using assms(1) by (simp add: op_defs)
  have empty: "sa_data (SizedArray_resize (SizedArray_clear buf) 0) = []"
    by (simp add: sa_data_def op_defs)
  show ?thesis
  proof (cases ans)
    case (Recv_error e)
    with assms(1,2) reset empty show ?thesis
      by (auto simp: TCPSocket_read_def Let_def close_open closed_socket_def)
  next
    case (Received bs)
    with assms have len: "length bs \<le> SizedArray_size (SizedArray_resize (SizedArray_clear buf) 0)"
      by simp
    show ?thesis
    proof (cases "bs = []")
      case True
      with Received assms(1,2) reset empty show ?thesis
        by (auto simp: TCPSocket_read_def Let_def close_open closed_socket_def)
    next
      case False
      obtain b where "copy_to_front bs (SizedArray_resize (SizedArray_clear buf) 0) = Inr b"
          "sa_data (SizedArray_resize b (length bs)) = bs"
        using copy_then_resize [OF len] by blast
      with False Received assms(1,2,4) reset show ?thesis
        by (simp add: TCPSocket_read_def Let_def)
    qed
  qed
qed

theorem TCPSocket_read_behaviour_witness:
  "\<exists>buf'. TCPSocket_read demo_socket (SizedArray_make (replicate NETSOCKET_ARRAY_SIZE 0)) (Received [7, 8])
     = Inr (2, demo_socket, buf', []) \<and> sa_data buf' = [7, 8]"
proof -
  have "(2 :: nat) \<le> NETSOCKET_ARRAY_SIZE" by (simp add: NETSOCKET_ARRAY_SIZE_def)
  then show ?thesis
    using TCPSocket_read_behaviour [of demo_socket "SizedArray_make (replicate NETSOCKET_ARRAY_SIZE 0)" "Received [7, 8]"]
    by simp
qed

text \<open>
  \<open>get_port\<close> returns the port in network byte order: for a peer on port \<open>p\<close> it returns \<open>p\<close> with
  its two bytes swapped, which is another number unless both bytes are equal.
\<close>

theorem TCPSocket_get_port_swapped:
  assumes "d > 0"
  shows "TCPSocket_get_port (TCPSocket_ctor d (Some \<lparr>sin_port = htons p, sin_addr = a\<rparr>)) = htons p
    \<and> (htons p = p \<longleftrightarrow> unat p div 256 = unat p mod 256)"
proof -
  have "htons p = p \<longleftrightarrow> unat (htons p) = unat p" by (simp add: word_unat_eq_iff)
  also have "\<dots> \<longleftrightarrow> unat p div 256 + 256 * (unat p mod 256) = unat p mod 256 + 256 * (unat p div 256)"
    by (simp add: unat_htons)
  also have "\<dots> \<longleftrightarrow> unat p div 256 = unat p mod 256" by linarith
  finally show ?thesis
    using assms
    by (simp add: TCPSocket_get_port_def TCPSocket_ctor_def TCPSocket_set_descriptor_def Let_def op_defs)
qed

theorem TCPSocket_get_port_swapped_witness:
  "unat (TCPSocket_get_port (TCPSocket_ctor 5 (Some \<lparr>sin_port = htons 8080, sin_addr = 0\<rparr>))) = 36895"
  using TCPSocket_get_port_swapped [of 5 8080 0] by (simp add: unat_htons)

end
