(* ===== verification/Local_Socket.thy ===== *)
theory Local_Socket
  imports Os_Model
begin

text \<open>
  \<open>connections/local/LocalSocket.h\<close> and \<open>.cpp\<close>: a datagram socket on a path of the file system. The
  descriptor 0 stands for "no socket". The receive and send timeouts are set without looking at the
  result and are not modelled; console messages are left out. \<open>strcpy\<close> into \<open>sun_path\<close>, an array of
  108 characters, is a memory fault for a path of 108 characters or more.
\<close>

record local_socket =
  ls_m_fd :: int
  ls_m_path_for_reading :: string
  ls_m_path_for_writing :: string

definition LOCALSOCKET_ARRAY_SIZE :: nat where
  "LOCALSOCKET_ARRAY_SIZE = 65535"

definition c_str :: "string \<Rightarrow> string" where
  "c_str s = takeWhile (\<lambda>c. c \<noteq> CHR 0x00) s"

definition strcpy_sun_path :: "string \<Rightarrow> unit result" where
  "strcpy_sun_path s = (if length (c_str s) < 108 then Inr () else Inl Bad_Memory)"

text \<open>
  \<open>init_socket\<close> with the answers of \<open>socket\<close> (a descriptor or a negative number) and \<open>bind\<close>. The
  result carries the socket and the events.
\<close>

definition LocalSocket_init_socket ::
  "local_socket \<Rightarrow> string \<Rightarrow> string \<Rightarrow> int \<Rightarrow> int \<Rightarrow> (local_socket \<times> os_event list) result" where
  "LocalSocket_init_socket s path_input path_output socket_ans bind_ans =
     (let s1 = s\<lparr>ls_m_path_for_reading := path_input, ls_m_path_for_writing := path_output\<rparr>;
          es = [Ev_Unlink (c_str (ls_m_path_for_reading s1))];
          s2 = s1\<lparr>ls_m_fd := socket_ans\<rparr>
      in if ls_m_fd s2 < 0 then Inr (s2\<lparr>ls_m_fd := 0\<rparr>, es)
         else rbind (strcpy_sun_path (ls_m_path_for_reading s2)) (\<lambda>_.
           if bind_ans < 0 then Inr (s2\<lparr>ls_m_fd := 0\<rparr>, es @ [Ev_Close (ls_m_fd s2)])
           else Inr (s2, es)))"

definition LocalSocket_ctor ::
  "string \<Rightarrow> string \<Rightarrow> int \<Rightarrow> int \<Rightarrow> (local_socket \<times> os_event list) result" where
  "LocalSocket_ctor path_input path_output socket_ans bind_ans =
     LocalSocket_init_socket
       \<lparr>ls_m_fd = 0, ls_m_path_for_reading = [], ls_m_path_for_writing = []\<rparr>
       path_input path_output socket_ans bind_ans"

definition LocalSocket_read ::
  "local_socket \<Rightarrow> u8 sized_array \<Rightarrow> recv_answer \<Rightarrow> (int \<times> local_socket \<times> u8 sized_array \<times> os_event list) result" where
  "LocalSocket_read s buf0 ans =
     (let buf = SizedArray_clear buf0
      in if ls_m_fd s = 0 then Inr (-1, s, buf, [])
         else case ans of
           Recv_error e \<Rightarrow>
             if e = EAGAIN \<or> e = EWOULDBLOCK then Inr (0, s, buf, [])
             else Inr (-1, s\<lparr>ls_m_fd := 0\<rparr>, buf, [Ev_Close (ls_m_fd s)])
         | Received bs \<Rightarrow>
             if LOCALSOCKET_ARRAY_SIZE < length bs then Inl Bad_Memory
             else rbind (copy_to_front bs buf) (\<lambda>buf1.
               Inr (int (length bs), s, SizedArray_resize buf1 (length bs), [])))"

text \<open>
  A datagram is sent whole or not at all: the answer of \<open>sendto\<close> is the count it took or an error.
\<close>

definition LocalSocket_write ::
  "local_socket \<Rightarrow> u8 sized_array \<Rightarrow> send_answer \<Rightarrow> (int \<times> local_socket \<times> u8 sized_array \<times> os_event list) result" where
  "LocalSocket_write s buf ans =
     (if ls_m_fd s = 0 then Inr (-1, s, buf, [])
      else rbind (strcpy_sun_path (ls_m_path_for_writing s)) (\<lambda>_.
        case ans of
          Send_error e \<Rightarrow>
            if e = ENOENT \<or> e = ECONNREFUSED \<or> e = EAGAIN then Inr (0, s, buf, [])
            else Inr (-1, s, SizedArray_clear buf, [])
        | Sent n \<Rightarrow>
            Inr (int n, s, SizedArray_clear buf, [Ev_Send (ls_m_fd s) (take n (sa_data buf))])))"

definition LocalSocket_dtor :: "local_socket \<Rightarrow> os_event list" where
  "LocalSocket_dtor s = [Ev_Close (ls_m_fd s), Ev_Unlink (c_str (ls_m_path_for_reading s))]"

subsection \<open>The life of a local socket\<close>

inductive local_reach ::
  "string \<Rightarrow> string \<Rightarrow> int \<Rightarrow> int \<Rightarrow> local_socket \<Rightarrow> os_event list \<Rightarrow> bool"
  for path_input path_output :: string and sock bnd :: int where
  local_start: "LocalSocket_ctor path_input path_output sock bnd = Inr (s, es) \<Longrightarrow>
    local_reach path_input path_output sock bnd s es"
| local_read: "local_reach path_input path_output sock bnd s es \<Longrightarrow>
    LocalSocket_read s buf ans = Inr (r, s', buf', es') \<Longrightarrow>
    local_reach path_input path_output sock bnd s' (es @ es')"
| local_write: "local_reach path_input path_output sock bnd s es \<Longrightarrow>
    LocalSocket_write s buf sans = Inr (r, s', buf', es') \<Longrightarrow>
    local_reach path_input path_output sock bnd s' (es @ es')"

lemma local_ctor_cases:
  assumes "LocalSocket_ctor pin pout sock bnd = Inr (s, es)" and "sock > 0"
  shows "closes sock es = (if ls_m_fd s = 0 then 1 else 0) \<and> closes 0 es = 0
    \<and> ls_m_fd s = (if bnd < 0 then 0 else sock)"
  using assms
  by (auto simp: LocalSocket_ctor_def LocalSocket_init_socket_def Let_def rbind_eq_Inr split: if_splits)

lemma local_read_step:
  assumes "LocalSocket_read s buf ans = Inr (r, s', buf', es)" and "ls_m_fd s \<in> {0, sock}" and "sock > 0"
  shows "ls_m_fd s' \<in> {0, sock} \<and> closes 0 es = 0
    \<and> closes sock es = (if ls_m_fd s \<noteq> 0 \<and> ls_m_fd s' = 0 then 1 else 0)
    \<and> (ls_m_fd s = 0 \<longrightarrow> ls_m_fd s' = 0)"
  using assms
  by (auto simp: LocalSocket_read_def Let_def rbind_eq_Inr split: if_splits recv_answer.splits)

lemma local_write_step:
  assumes "LocalSocket_write s buf ans = Inr (r, s', buf', es)"
  shows "s' = s \<and> closes d es = 0"
  using assms
  by (auto simp: LocalSocket_write_def rbind_eq_Inr split: if_splits send_answer.splits)

lemma local_reach_inv:
  assumes "local_reach pin pout sock bnd s es" and "sock > 0"
  shows "ls_m_fd s \<in> {0, sock} \<and> closes 0 es = 0 \<and> closes sock es = (if ls_m_fd s = 0 then 1 else 0)
    \<and> (bnd < 0 \<longrightarrow> ls_m_fd s = 0)"
  using assms(1)
proof (induction rule: local_reach.induct)
  case (local_start s es)
  then show ?case using local_ctor_cases [OF _ assms(2)] by (auto split: if_splits)
next
  case (local_read s es buf ans r s' buf' es')
  then show ?case using local_read_step [OF local_read.hyps(2) _ assms(2)] by (auto split: if_splits)
next
  case (local_write s es buf sans r s' buf' es')
  then show ?case using local_write_step [OF local_write.hyps(2)] by auto
qed

definition demo_local :: local_socket where
  "demo_local = \<lparr>ls_m_fd = 4, ls_m_path_for_reading = ''/tmp/1'', ls_m_path_for_writing = ''/tmp/2''\<rparr>"

lemma demo_local_ctor: "LocalSocket_ctor ''/tmp/1'' ''/tmp/2'' 4 0 = Inr (demo_local, [Ev_Unlink ''/tmp/1''])"
  by (simp add: LocalSocket_ctor_def LocalSocket_init_socket_def Let_def strcpy_sun_path_def c_str_def
      demo_local_def)

subsection \<open>Properties\<close>

text \<open>
  A write on an open local socket whose target path fits, on every branch: a datagram the kernel
  takes goes out whole and the array is cleared; when the peer is missing or busy the result is 0 and
  the array is kept for a retry; after any other error the result is -1 and the array is cleared
  although nothing was sent. The socket stays open in every case.
\<close>

theorem LocalSocket_write_behaviour:
  assumes "ls_m_fd s \<noteq> 0" and "length (c_str (ls_m_path_for_writing s)) < 108" and "sa_ok buf"
    and "\<forall>n. ans = Sent n \<longrightarrow> n = SizedArray_data_size buf"
  shows "\<exists>r buf' es. LocalSocket_write s buf ans = Inr (r, s, buf', es) \<and>
    (case ans of
       Sent n \<Rightarrow> r = int n \<and> sa_data buf' = [] \<and> wire (ls_m_fd s) es = sa_data buf
     | Send_error e \<Rightarrow> es = [] \<and>
         (if e \<in> {ENOENT, ECONNREFUSED, EAGAIN} then r = 0 \<and> buf' = buf
          else r = -1 \<and> sa_data buf' = []))"
  using assms length_sa_data [OF assms(3)]
  by (cases ans) (auto simp: LocalSocket_write_def strcpy_sun_path_def)

theorem LocalSocket_write_behaviour_witness:
  "\<exists>buf' es. LocalSocket_write demo_local \<lparr>sa_elems = [1, 2, 0], sa_m_data_size = 2\<rparr> (Send_error (EOTHER 90))
     = Inr (-1, demo_local, buf', es) \<and> sa_data buf' = [] \<and> es = []"
  using LocalSocket_write_behaviour
    [of demo_local "\<lparr>sa_elems = [1, 2, 0], sa_m_data_size = 2\<rparr>" "Send_error (EOTHER 90)"]
  by (simp add: demo_local_def c_str_def sa_ok_def op_defs)

text \<open>
  C35. Closing: over the life of a local socket, construction, any reads and writes and the destructor,
  the descriptor the kernel gave out is closed exactly once. But when the socket was lost before the
  destructor, because \<open>bind\<close> failed or a read hit an error, the destructor closes descriptor 0, the
  standard input of the process.
\<close>

theorem LocalSocket_closes_once_and_stdin:
  assumes "local_reach path_input path_output sock bnd s es" and "sock > 0"
  shows "closes sock (es @ LocalSocket_dtor s) = 1
    \<and> closes 0 (es @ LocalSocket_dtor s) = (if ls_m_fd s = 0 then 1 else 0)
    \<and> (bnd < 0 \<longrightarrow> closes 0 (es @ LocalSocket_dtor s) = 1)"
  using local_reach_inv [OF assms] assms(2)
  by (auto simp: LocalSocket_dtor_def split: if_splits)

theorem LocalSocket_closes_once_and_stdin_witness:
  "closes 4 ([Ev_Unlink ''/tmp/1''] @ LocalSocket_dtor demo_local) = 1
   \<and> (\<exists>s es. local_reach ''/tmp/1'' ''/tmp/2'' 4 (-1) s es \<and> closes 0 (es @ LocalSocket_dtor s) = 1)"
proof -
  have "\<exists>s es. LocalSocket_ctor ''/tmp/1'' ''/tmp/2'' 4 (-1) = Inr (s, es)"
    by (simp add: LocalSocket_ctor_def LocalSocket_init_socket_def Let_def strcpy_sun_path_def c_str_def)
  then obtain s es where "local_reach ''/tmp/1'' ''/tmp/2'' 4 (-1) s es"
    using local_start by blast
  with LocalSocket_closes_once_and_stdin [OF this]
    LocalSocket_closes_once_and_stdin [OF local_start [OF demo_local_ctor]] show ?thesis by auto
qed

text \<open>
  A read on an open local socket, on every branch: a datagram arrives whole as the data of the
  array and its length is returned (0 for an empty datagram, which is not an error); a timeout returns
  0 with an empty array; any other error returns -1 and closes the socket.
\<close>

theorem LocalSocket_read_behaviour:
  assumes "ls_m_fd s \<noteq> 0" and "SizedArray_size buf = LOCALSOCKET_ARRAY_SIZE"
    and "case ans of Received bs \<Rightarrow> length bs \<le> LOCALSOCKET_ARRAY_SIZE | Recv_error e \<Rightarrow> True"
  shows "\<exists>r s' buf' es. LocalSocket_read s buf ans = Inr (r, s', buf', es) \<and>
    (case ans of
       Received bs \<Rightarrow> r = int (length bs) \<and> sa_data buf' = bs \<and> s' = s \<and> es = []
     | Recv_error e \<Rightarrow> sa_data buf' = [] \<and>
         (if e = EAGAIN then r = 0 \<and> s' = s \<and> es = []
          else r = -1 \<and> ls_m_fd s' = 0 \<and> es = [Ev_Close (ls_m_fd s)]))"
proof (cases ans)
  case (Recv_error e)
  with assms show ?thesis by (simp add: LocalSocket_read_def Let_def)
next
  case (Received bs)
  then have "length bs \<le> SizedArray_size (SizedArray_clear buf)" using assms by simp
  from copy_then_resize [OF this] obtain b where "copy_to_front bs (SizedArray_clear buf) = Inr b"
      "sa_data (SizedArray_resize b (length bs)) = bs" by blast
  with Received assms show ?thesis by (simp add: LocalSocket_read_def Let_def)
qed

theorem LocalSocket_read_behaviour_witness:
  "\<exists>buf'. LocalSocket_read demo_local (SizedArray_make (replicate LOCALSOCKET_ARRAY_SIZE 0)) (Received [3])
     = Inr (1, demo_local, buf', []) \<and> sa_data buf' = [3]"
proof -
  have "(1 :: nat) \<le> LOCALSOCKET_ARRAY_SIZE" by (simp add: LOCALSOCKET_ARRAY_SIZE_def)
  then show ?thesis
    using LocalSocket_read_behaviour [of demo_local "SizedArray_make (replicate LOCALSOCKET_ARRAY_SIZE 0)" "Received [3]"]
    by (simp add: demo_local_def)
qed

end
