(* ===== verification/Socket_Workers.thy ===== *)
theory Socket_Workers
  imports Source_Runs Tcp_Socket Local_Socket
begin

text \<open>
  \<open>connections/workers/LocalSocketWorker\<close> and \<open>TCPSocketWorker\<close>: the two workers of the program. Each
  overrides the virtual read and write of \<open>ConnectionWorker\<close> with those of its socket, which may be
  missing. Both are shown to be sources in the sense of the interface \<open>worker_source\<close>; the properties of
  the workers follow. (The base class is not one: its write clears the array and asks for a retry.)
\<close>

subsection \<open>LocalSocketWorker\<close>

text \<open>The constructor keeps the socket beside the base worker.\<close>

definition LocalSocketWorker_ctor ::
  "queue_obj option \<Rightarrow> queue_obj option \<Rightarrow> local_socket option \<Rightarrow> u64
    \<Rightarrow> (connection_worker \<times> local_socket option) \<times> u64" where
  "LocalSocketWorker_ctor queue_for_reading queue_for_writing local_socket counter =
     (case ConnectionWorker_ctor queue_for_reading queue_for_writing counter of
        (w, counter') \<Rightarrow> ((w, local_socket), counter'))"

definition LocalSocketWorker_read_data_from_source ::
  "local_socket option \<Rightarrow> u8 sized_array \<Rightarrow> recv_answer \<Rightarrow> local_socket option source_result" where
  "LocalSocketWorker_read_data_from_source m_local_socket buf ans =
     (case m_local_socket of
        Some s \<Rightarrow> rbind (LocalSocket_read s buf ans) (\<lambda>(status, s', buf', es).
          if status < 0 then Inr (-1, Some s', buf', es) else Inr (status, Some s', buf', es))
      | None \<Rightarrow> Inr (-1, None, buf, []))"

definition LocalSocketWorker_write_data_to_source ::
  "local_socket option \<Rightarrow> u8 sized_array \<Rightarrow> send_answer \<Rightarrow> local_socket option source_result" where
  "LocalSocketWorker_write_data_to_source m_local_socket buf ans =
     (case m_local_socket of
        Some s \<Rightarrow> rbind (LocalSocket_write s buf ans) (\<lambda>(status, s', buf', es).
          if status < 0 then Inr (-1, Some s', buf', es) else Inr (status, Some s', buf', es))
      | None \<Rightarrow> Inr (-1, None, buf, []))"

definition local_source :: "(local_socket option, recv_answer, send_answer) source_ops" where
  "local_source = \<lparr>so_read = LocalSocketWorker_read_data_from_source,
                   so_write = LocalSocketWorker_write_data_to_source\<rparr>"

subsection \<open>TCPSocketWorker\<close>

definition TCPSocketWorker_ctor ::
  "queue_obj option \<Rightarrow> queue_obj option \<Rightarrow> tcp_socket option \<Rightarrow> u64
    \<Rightarrow> (connection_worker \<times> tcp_socket option) \<times> u64" where
  "TCPSocketWorker_ctor queue_for_reading queue_for_writing net_socket counter =
     (case ConnectionWorker_ctor queue_for_reading queue_for_writing counter of
        (w, counter') \<Rightarrow> ((w, net_socket), counter'))"

text \<open>\<open>get_socket\<close> dereferences the pointer to the socket.\<close>

definition TCPSocketWorker_get_socket :: "tcp_socket option \<Rightarrow> tcp_socket result" where
  "TCPSocketWorker_get_socket m_net_socket =
     (case m_net_socket of None \<Rightarrow> Inl Null_Pointer | Some s \<Rightarrow> Inr s)"

definition TCPSocketWorker_read_data_from_source ::
  "tcp_socket option \<Rightarrow> u8 sized_array \<Rightarrow> recv_answer \<Rightarrow> tcp_socket option source_result" where
  "TCPSocketWorker_read_data_from_source m_net_socket buf ans =
     (case m_net_socket of
        Some s \<Rightarrow> rbind (TCPSocket_read s buf ans) (\<lambda>(status, s', buf', es).
          if status < 0 then Inr (-1, Some s', buf', es) else Inr (status, Some s', buf', es))
      | None \<Rightarrow> Inr (-1, None, buf, []))"

text \<open>The answers are those to all the \<open>send\<close> calls of one write.\<close>

definition TCPSocketWorker_write_data_to_source ::
  "tcp_socket option \<Rightarrow> u8 sized_array \<Rightarrow> send_answer list \<Rightarrow> tcp_socket option source_result" where
  "TCPSocketWorker_write_data_to_source m_net_socket buf ans =
     (case m_net_socket of
        Some s \<Rightarrow>
          (case TCPSocket_write s buf ans of
             None \<Rightarrow> Inl Blocked
           | Some (status, s', buf', es, _) \<Rightarrow>
               if status < 0 then Inr (-2, Some s', buf', es) else Inr (status, Some s', buf', es))
      | None \<Rightarrow> Inr (-1, None, buf, []))"

definition tcp_source :: "(tcp_socket option, recv_answer, send_answer list) source_ops" where
  "tcp_source = \<lparr>so_read = TCPSocketWorker_read_data_from_source,
                 so_write = TCPSocketWorker_write_data_to_source\<rparr>"

subsection \<open>Both are sources\<close>

text \<open>What the kernel can answer to a write: a datagram whole, a stream no more than it is given.\<close>

definition local_kernel :: "local_socket option \<Rightarrow> u8 sized_array \<Rightarrow> send_answer \<Rightarrow> bool" where
  "local_kernel s buf ans \<longleftrightarrow> (case ans of Sent n \<Rightarrow> n = SizedArray_data_size buf | Send_error e \<Rightarrow> True)"

definition tcp_kernel :: "tcp_socket option \<Rightarrow> u8 sized_array \<Rightarrow> send_answer list \<Rightarrow> bool" where
  "tcp_kernel s buf ans \<longleftrightarrow> sends_fit (SizedArray_data_size buf) ans"

lemma filled_array:
  assumes "copy_to_front bs a = Inr a'"
  shows "SizedArray_data_size (SizedArray_resize a' (length bs)) = length bs"
  using assms by (auto simp: copy_to_front_def op_defs split: if_splits)

lemma data_size_pos: "sa_ok buf \<Longrightarrow> sa_data buf \<noteq> [] \<Longrightarrow> 0 < SizedArray_data_size buf"
  using length_sa_data [of buf] by (cases "sa_data buf") auto

lemma send_loop_zero:
  assumes "TCPSocket_send_loop s buf k as = Some (0, s', buf', es, as')" and "0 < SizedArray_data_size buf"
  shows "buf' = buf"
  using assms
  by (induction as arbitrary: k es)
    (auto split: if_splits send_answer.splits option.splits prod.splits)

lemma send_loop_array:
  assumes "TCPSocket_send_loop s buf k as = Some (r, s', buf', es, as')" and "sa_ok buf"
  shows "SizedArray_size buf' = SizedArray_size buf \<and> sa_ok buf'"
  using assms
  by (induction as arbitrary: k es)
    (auto split: if_splits send_answer.splits option.splits prod.splits)

interpretation lw: worker_source local_source local_kernel
proof
  fix s s' :: "local_socket option" and buf buf' :: "u8 sized_array" and ra r es
  assume "sa_ok buf" "so_read local_source s buf ra = Inr (r, s', buf', es)"
  then show "SizedArray_size buf' = SizedArray_size buf \<and> sa_ok buf'
      \<and> (0 < r \<longrightarrow> r = int (SizedArray_data_size buf'))"
    by (auto simp: local_source_def LocalSocketWorker_read_data_from_source_def LocalSocket_read_def
        rbind_eq_Inr Let_def filled_array split: option.splits if_splits recv_answer.splits)
next
  fix s s' :: "local_socket option" and buf buf' :: "u8 sized_array" and wa r es
  assume "sa_ok buf" "so_write local_source s buf wa = Inr (r, s', buf', es)"
  then show "SizedArray_size buf' = SizedArray_size buf \<and> sa_ok buf'"
    by (auto simp: local_source_def LocalSocketWorker_write_data_to_source_def LocalSocket_write_def
        rbind_eq_Inr split: option.splits if_splits send_answer.splits)
next
  fix s s' :: "local_socket option" and buf buf' :: "u8 sized_array" and wa es
  assume "local_kernel s buf wa" "sa_ok buf" "sa_data buf \<noteq> []" "so_write local_source s buf wa = Inr (0, s', buf', es)"
  then show "buf' = buf" using data_size_pos [of buf]
    by (auto simp: local_kernel_def local_source_def LocalSocketWorker_write_data_to_source_def
        LocalSocket_write_def rbind_eq_Inr split: option.splits if_splits send_answer.splits)
qed

interpretation tw: worker_source tcp_source tcp_kernel
proof
  fix s s' :: "tcp_socket option" and buf buf' :: "u8 sized_array" and ra r es
  assume "sa_ok buf" "so_read tcp_source s buf ra = Inr (r, s', buf', es)"
  then show "SizedArray_size buf' = SizedArray_size buf \<and> sa_ok buf'
      \<and> (0 < r \<longrightarrow> r = int (SizedArray_data_size buf'))"
    by (auto simp: tcp_source_def TCPSocketWorker_read_data_from_source_def TCPSocket_read_def
        rbind_eq_Inr Let_def filled_array split: option.splits if_splits recv_answer.splits prod.splits)
next
  fix s s' :: "tcp_socket option" and buf buf' :: "u8 sized_array" and wa r es
  assume "sa_ok buf" "so_write tcp_source s buf wa = Inr (r, s', buf', es)"
  then show "SizedArray_size buf' = SizedArray_size buf \<and> sa_ok buf'"
    by (auto simp: tcp_source_def TCPSocketWorker_write_data_to_source_def TCPSocket_write_def Let_def
        dest: send_loop_array split: option.splits if_splits)
next
  fix s s' :: "tcp_socket option" and buf buf' :: "u8 sized_array" and wa es
  assume "tcp_kernel s buf wa" "sa_ok buf" "sa_data buf \<noteq> []" "so_write tcp_source s buf wa = Inr (0, s', buf', es)"
  then show "buf' = buf" using data_size_pos [of buf]
    by (auto simp: tcp_source_def TCPSocketWorker_write_data_to_source_def TCPSocket_write_def Let_def
        dest: send_loop_zero split: option.splits if_splits)
qed

subsection \<open>Sender to consumer\<close>

lemma deframe_prefix:
  assumes "\<forall>d \<in> set ps. length d \<le> 65523" and "parsed @ tail = concat (map sent ps)"
    and "deframe parsed = Inr (ds, r)"
  shows "\<exists>es. ds @ es = map sent ps" and "tail = [] \<Longrightarrow> ds = map sent ps"
proof -
  have "deframe (parsed @ tail) = Inr (map sent ps, [])"
    using deframe_concat [OF sent_list_well_formed [OF assms(1)], of "[]"] by (simp add: assms(2))
  then have "seq_spec deframe (ds, r) tail = Inr (map sent ps, [])"
    using deframe_append [of parsed tail] assms(3) by simp
  then obtain es where es: "deframe (r @ tail) = Inr (es, [])" "ds @ es = map sent ps"
    by (auto simp: seq_spec_def rbind_eq_Inr)
  then show "\<exists>es. ds @ es = map sent ps" by blast
  show "ds = map sent ps" if "tail = []"
    using es that deframe_result [OF assms(3)] by simp
qed

lemma prepared_frames:
  assumes "\<forall>d \<in> set ps. length d \<le> 65523"
    and "map (\<lambda>d. prepare_data_for_sending d (length d)) ps = map Inr fs"
  shows "fs = map sent ps"
proof -
  have "map (\<lambda>d. prepare_data_for_sending d (length d)) ps = map Inr (map sent ps)"
    using assms(1) by (simp add: prepare_ok sent_def)
  then have "map projr (map Inr fs :: bytes result list) = map projr (map Inr (map sent ps) :: bytes result list)"
    using assms(2) by simp
  then show ?thesis by (simp add: o_def)
qed

context worker_source
begin

lemma worker_delivers:
  assumes "worker_steps ops wok (worker_started w s) st tr"
    and "fresh_queue (cw_m_queue_for_reading w)" and "cw_m_parser w = Some (Obj_ParserExample ParserExample_ctor)"
    and "\<forall>d \<in> set ps. length d \<le> 65523"
    and "map (\<lambda>d. prepare_data_for_sending d (length d)) ps = map Inr fs"
    and "received tr @ unread = concat fs"
  shows "\<exists>q later. cw_m_queue_for_reading (wr_worker st) = Some q \<and> consumed tr @ deco_cont q @ later = fs
    \<and> (unread = [] \<and> wr_rpc st = R_Read \<longrightarrow> later = [])"
proof -
  obtain q parsed rest remaining r where q: "cw_m_queue_for_reading (wr_worker st) = Some q"
    and rcv: "received tr = parsed @ rest" "deframe parsed = Inr (consumed tr @ deco_cont q @ remaining, r)"
    and idle: "wr_rpc st = R_Read \<longrightarrow> rest = [] \<and> remaining = []"
    using worker_reads [OF assms(1-3)] by blast
  note fs = prepared_frames [OF assms(4,5)]
  have "parsed @ rest @ unread = concat (map sent ps)" using assms(6) rcv(1) fs by simp
  from deframe_prefix [OF assms(4) this rcv(2)] obtain es where
    "(consumed tr @ deco_cont q @ remaining) @ es = fs"
    "rest @ unread = [] \<Longrightarrow> consumed tr @ deco_cont q @ remaining = fs"
    using fs by blast
  with q idle show ?thesis
    by (intro exI [of _ q] exI [of _ "if rest @ unread = [] then remaining else remaining @ es"]) auto
qed

end

text \<open>Queues as \<open>AbstractSubprocess\<close> builds them for writing, and a TCP worker on the socket \<open>demo_socket\<close>.\<close>

definition demo_queue :: queue_obj where
  "demo_queue = fst (deco_build [RQ_BlockWriteTimedDecorator 1000, RQ_NoBlockReadDecorator]
     (Ring (RingQueue_ctor 2 4)) 0)"

definition demo_worker :: connection_worker where
  "demo_worker = (fst (ConnectionWorker_ctor (Some demo_queue) (Some demo_queue) 0))
     \<lparr>cw_m_parser := Some (Obj_ParserExample ParserExample_ctor), cw_m_read_thread_alive := True,
      cw_m_write_thread_alive := True, cw_t_guard_joinable := True\<rparr>"

lemma demo_queue_core: "core demo_queue = RingQueue_ctor 2 4"
  by (simp add: demo_queue_def deco_ctor_def Let_def)

lemma demo_queue_fresh: "deco_inv demo_queue" "deco_cont demo_queue = []" "deco_cap demo_queue = 2"
proof -
  show "deco_inv demo_queue" unfolding demo_queue_def by (rule deco_build_inv) simp_all
  show "deco_cont demo_queue = []" "deco_cap demo_queue = 2"
    unfolding deco_cont_def deco_cap_def demo_queue_core by (simp_all only: RingQueue_ctor_fresh) simp
qed

lemma demo_worker_simps [simp]:
  "fresh_queue (cw_m_queue_for_reading demo_worker)" "fresh_queue (cw_m_queue_for_writing demo_worker)"
  "fresh_queue (Some demo_queue)"
  "cw_m_parser demo_worker = Some (Obj_ParserExample ParserExample_ctor)"
  "cw_m_queue_for_reading demo_worker = Some demo_queue" "cw_m_queue_for_writing demo_worker = Some demo_queue"
  "\<not> reader_leaves demo_worker" "\<not> writer_leaves demo_worker" "cw_t_guard_joinable demo_worker"
  by (simp_all add: demo_worker_def ConnectionWorker_ctor_def fresh_queue_def demo_queue_fresh
      reader_leaves_def writer_leaves_def)

text \<open>A user puts an item into the writing queue of this worker, and the writing thread writes it to its source.\<close>

lemma demo_put:
  assumes "length f < 65536"
  shows "\<exists>st. worker_steps ops wok (worker_started demo_worker s) st [E_Produced f] \<and> source_ready s st [f]"
proof -
  let ?st0 = "worker_started demo_worker s" and ?n = "word_of_nat (length f) :: u16"
  have n: "unat ?n = length f" using assms by (simp add: unat_of_nat)
  with deco_put_refines [OF demo_queue_fresh(1), of ?n f] obtain r q where q: "deco_put [] demo_queue f ?n = Inr (r, q)"
    "deco_inv q" "deco_cont q = [f]" "deco_get_status q = STATUS_QUEUEBASE_OK"
    by (auto simp: fifo_put_def demo_queue_fresh split: if_splits)
  let ?st1 = "?st0\<lparr>wr_worker := demo_worker\<lparr>cw_m_queue_for_writing := Some q\<rparr>\<rparr>"
  have "user_put ?st0 f ?n = Inr (?st1, [E_Produced f])"
    using q n by (simp add: user_put_def worker_started_def)
  from ws_put [OF ws_start _ this] n have "worker_steps ops wok ?st0 ?st1 [E_Produced f]" by simp
  moreover have "\<not> writer_leaves (demo_worker\<lparr>cw_m_queue_for_writing := Some q\<rparr>)"
    using demo_worker_simps(8) by (simp add: writer_leaves_def)
  then have "source_ready s ?st1 [f]" using q by (simp add: source_ready_def worker_started_def)
  ultimately show ?thesis by blast
qed

lemma demo_write:
  assumes "length f < 65536" and "f \<noteq> []"
    and whole: "\<And>arr. sa_ok arr \<Longrightarrow> sa_data arr = f \<Longrightarrow>
      so_write ops s arr wa = Inr (int (length f), s, SizedArray_clear arr, evs) \<and> wok s arr wa"
  shows "\<exists>st. worker_steps ops wok (worker_started demo_worker s) st (E_Produced f # os_events evs @ [E_Written f])
    \<and> source_ready s st []"
proof -
  obtain st where st: "worker_steps ops wok (worker_started demo_worker s) st [E_Produced f]" "source_ready s st [f]"
    using demo_put [where ops = ops and wok = wok and s = s, OF assms(1)] by blast
  from source_round [where ops = ops and wok = wok and wa = wa and evs = evs, OF st(2) assms(2) whole] obtain st' where st': "source_ready s st' []"
    "\<forall>st0 tr. worker_steps ops wok st0 st tr \<longrightarrow> worker_steps ops wok st0 st' (tr @ os_events evs @ [E_Written f])"
    by blast
  with st(1) have "worker_steps ops wok (worker_started demo_worker s) st' ([E_Produced f] @ os_events evs @ [E_Written f])"
    by blast
  with st'(1) show ?thesis by auto
qed

subsection \<open>Properties\<close>

text \<open>
  From the sender to the consumer: payloads framed with \<open>prepare_data_for_sending\<close> and sent back to
  back reach the users of a TCP worker as the same datagrams, in order, none missing, none added and
  none twice, in every interleaving of the worker's threads and its users, however the stream is cut
  by the network: what the users have taken, followed by what the reading queue holds, is always a
  prefix of the frames, and all of them once everything has arrived and the thread reads again. A
  full queue delays datagrams and does not lose them.
\<close>

theorem TCPSocketWorker_delivers_frames:
  assumes "worker_steps tcp_source tcp_kernel (worker_started w s) st tr"
    and "fresh_queue (cw_m_queue_for_reading w)" and "cw_m_parser w = Some (Obj_ParserExample ParserExample_ctor)"
    and "\<forall>d \<in> set ps. length d \<le> 65523"
    and "map (\<lambda>d. prepare_data_for_sending d (length d)) ps = map Inr fs"
    and "received tr @ unread = concat fs"
  shows "\<exists>q later. cw_m_queue_for_reading (wr_worker st) = Some q \<and> consumed tr @ deco_cont q @ later = fs
    \<and> (unread = [] \<and> wr_rpc st = R_Read \<longrightarrow> later = [])"
  by (rule tw.worker_delivers [OF assms])

lemma demo_read_any:
  assumes "cw_m_queue_for_reading w \<noteq> None" and "\<not> reader_leaves w"
  shows "\<exists>st. worker_steps tcp_source tcp_kernel (worker_started w (Some demo_socket)) st [E_Received [255, 255]]
    \<and> wr_rpc st = R_Check 2"
proof -
  let ?st0 = "worker_started w (Some demo_socket)"
  let ?st1 = "?st0\<lparr>wr_rpc := R_Read\<rparr>"
  have "thread_read_from_source tcp_source ?st0 (Received []) = Inr (?st1, [])"
    using assms by (simp add: thread_read_from_source_def worker_started_def)
  from ws_reader [OF ws_start this] have 1: "worker_steps tcp_source tcp_kernel ?st0 ?st1 []" by simp
  let ?arr = "SizedArray_resize (SizedArray_clear (wr_rarr ?st1)) 0"
  have "length [255, 255 :: u8] \<le> SizedArray_size ?arr"
    by (simp add: worker_started_def connection_worker_arr_size_def)
  from copy_then_resize [OF this] obtain a where a: "copy_to_front [255, 255] ?arr = Inr a"
    "sa_data (SizedArray_resize a (length [255, 255 :: u8])) = [255, 255]" by blast
  have "thread_read_from_source tcp_source ?st1 (Received [255, 255])
      = Inr (?st1\<lparr>wr_rarr := SizedArray_resize a (length [255, 255 :: u8]), wr_rpc := R_Check 2\<rparr>, [E_Received [255, 255]])"
    using a by (simp add: thread_read_from_source_def worker_started_def tcp_source_def
        TCPSocketWorker_read_data_from_source_def TCPSocket_read_def NETSOCKET_ARRAY_SIZE_def Let_def)
  from ws_reader [OF 1 this] show ?thesis by auto
qed

lemma demo_read_step:
  "\<exists>st. worker_steps tcp_source tcp_kernel (worker_started demo_worker (Some demo_socket)) st [E_Received [255, 255]]"
  using demo_read_any [of demo_worker] by auto

theorem TCPSocketWorker_delivers_frames_witness:
  "\<exists>st q later. worker_steps tcp_source tcp_kernel (worker_started demo_worker (Some demo_socket)) st [E_Received [255, 255]]
     \<and> cw_m_queue_for_reading (wr_worker st) = Some q \<and> deco_cont q @ later = [sent [7, 8]]"
proof -
  obtain st where st: "worker_steps tcp_source tcp_kernel (worker_started demo_worker (Some demo_socket)) st
      [E_Received [255, 255]]"
    using demo_read_step by blast
  have "sent [7, 8] = [255, 255] @ drop 2 (sent [7, 8])"
    by (simp add: sent_def sent_head_def le32_bytes_def MAIN_WORD_def bytes_of_data_head_def)
  then have "received [E_Received [255, 255]] @ drop 2 (sent [7, 8]) = concat [sent [7, 8]]" by simp
  from TCPSocketWorker_delivers_frames [OF st _ _ _ _ this, of "[[7, 8]]"] st show ?thesis
    by (fastforce simp: prepare_ok sent_def)
qed

text \<open>
  What users put into the writing queue of a local worker is written to the socket once, in order,
  in every interleaving: what was put is what was written followed by what the queue still holds,
  except that between a successful write and the \<open>get\<close> after it one item is in both. An item whose
  write failed for good stays in the queue.
\<close>

theorem LocalSocketWorker_writes_in_order:
  assumes "worker_steps local_source local_kernel (worker_started w s) st tr"
    and "fresh_queue (cw_m_queue_for_writing w)"
  shows "\<exists>q. cw_m_queue_for_writing (wr_worker st) = Some q \<and>
    (if \<exists>n. wr_wpc st = W_Get n
     then written tr \<noteq> [] \<and> produced tr = butlast (written tr) @ deco_cont q \<and> last (written tr) = hd (deco_cont q)
     else produced tr = written tr @ deco_cont q)"
  by (rule lw.worker_writes [OF assms])

theorem LocalSocketWorker_writes_in_order_witness:
  "\<exists>st q. worker_steps local_source local_kernel (worker_started demo_worker (Some demo_local)) st [E_Produced [9, 8]]
     \<and> cw_m_queue_for_writing (wr_worker st) = Some q \<and> deco_cont q = [[9, 8]]"
proof -
  let ?st0 = "worker_started demo_worker (Some demo_local)"
  have "\<exists>r w'. deco_put [] demo_queue [9, 8] 2 = Inr (r, w') \<and> deco_get_status w' = STATUS_QUEUEBASE_OK"
    using deco_put_refines [OF demo_queue_fresh(1), of 2 "[9, 8]"]
    by (auto simp: fifo_put_def demo_queue_fresh split: if_splits)
  then obtain st where "user_put ?st0 [9, 8] 2 = Inr (st, [E_Produced [9, 8]])"
    by (auto simp: user_put_def worker_started_def)
  from ws_put [OF ws_start _ this] have st: "worker_steps local_source local_kernel ?st0 st [E_Produced [9, 8]]"
    by simp
  moreover have "wr_wpc st = W_While"
    using \<open>user_put ?st0 [9, 8] 2 = _\<close> by (auto simp: user_put_def worker_started_def rbind_eq_Inr)
  ultimately show ?thesis using LocalSocketWorker_writes_in_order [OF st demo_worker_simps(2)] by auto
qed


definition stopped_run :: "local_socket option worker_run" where
  "stopped_run = worker_started (ConnectionWorker_stop demo_worker) (Some demo_local)"


text \<open>
  The loop that repeats a write does not look at the stop flag: while the peer of a local worker is
  missing or busy, the writing thread stays in that loop for any number of steps, whether or not the
  worker was asked to stop, so a destructor that waits for it does not return.
\<close>

theorem LocalSocketWorker_retry_ignores_stop:
  assumes "wr_wpc st = W_Write" and "wr_source st = Some s" and "ls_m_fd s \<noteq> 0"
    and "length (c_str (ls_m_path_for_writing s)) < 108" and "e \<in> {ENOENT, ECONNREFUSED, EAGAIN}"
  shows "run_writer local_source (st\<lparr>wr_worker := ConnectionWorker_stop (wr_worker st)\<rparr>) (replicate n (Send_error e))
    = Inr (st\<lparr>wr_worker := ConnectionWorker_stop (wr_worker st)\<rparr>, [])"
proof -
  let ?st = "st\<lparr>wr_worker := ConnectionWorker_stop (wr_worker st)\<rparr>"
  have same: "?st\<lparr>wr_source := wr_source st, wr_warr := wr_warr st\<rparr> = ?st" by simp
  have "LocalSocket_write s (wr_warr st) (Send_error e) = Inr (0, s, wr_warr st, [])"
    using assms(3-5) by (auto simp: LocalSocket_write_def strcpy_sun_path_def)
  then have "thread_write_to_source local_source ?st (Send_error e) = Inr (?st, [])"
    using assms(1,2) same by (simp add: thread_write_to_source_def local_source_def
        LocalSocketWorker_write_data_to_source_def Let_def)
  then show ?thesis by (induction n) simp_all
qed

theorem LocalSocketWorker_retry_ignores_stop_witness:
  "run_writer local_source (stopped_run\<lparr>wr_wpc := W_Write\<rparr>) (replicate 1000 (Send_error ENOENT))
   = Inr (stopped_run\<lparr>wr_wpc := W_Write\<rparr>, [])"
  using LocalSocketWorker_retry_ignores_stop
    [of "stopped_run\<lparr>wr_wpc := W_Write\<rparr>" demo_local ENOENT 1000]
  by (simp add: stopped_run_def worker_started_def ConnectionWorker_stop_def demo_local_def c_str_def)

text \<open>
  A worker can be started only once: after \<open>start\<close>, in every state its threads and users can reach,
  even after it was stopped and both threads have ended, a second \<open>start\<close> assigns to a joinable thread
  and terminates the program.
\<close>

theorem worker_second_start_terminates:
  assumes "ConnectionWorker_run w = Inr w1" and "worker_steps ops wok (worker_started w1 s) st tr"
  shows "ConnectionWorker_run (wr_worker st) = Inl Terminated"
  using assms steps_guard [OF assms(2)]
  by (auto simp: ConnectionWorker_run_def Let_def worker_started_def split: if_splits)

theorem worker_second_start_terminates_witness:
  "\<exists>w1. ConnectionWorker_run (fst (ConnectionWorker_ctor (Some demo_queue) (Some demo_queue) 0)) = Inr w1
     \<and> ConnectionWorker_run (ConnectionWorker_stop w1) = Inl Terminated"
proof -
  let ?w = "fst (ConnectionWorker_ctor (Some demo_queue) (Some demo_queue) 0)"
  obtain w1 where w1: "ConnectionWorker_run ?w = Inr w1"
    by (simp add: ConnectionWorker_run_def ConnectionWorker_ctor_def Let_def)
  note ws_stop [OF ws_start, of local_source local_kernel "worker_started w1 None"]
  from worker_second_start_terminates [OF w1 this] w1 show ?thesis
    by (simp add: worker_started_def)
qed

text \<open>
  C38. An item of size 0 blocks the writing queue for ever: once one is at the front, and a \<open>put\<close> with
  size 0 stores one although it returns 0, the writing thread takes it for an empty queue; in every
  reachable state nothing was written and the items are still there behind it.
\<close>

theorem empty_item_stalls_writer:
  assumes "worker_steps ops wok (worker_started w s) st tr"
    and "cw_m_queue_for_writing w = Some q" and "deco_inv q" and "deco_cont q = [] # ds"
  shows "written tr = [] \<and>
    (\<exists>q' later. cw_m_queue_for_writing (wr_worker st) = Some q' \<and> deco_cont q' = [] # ds @ later)"
proof -
  have "stalled (worker_started w s) [] ds"
    using assms(2-) by (auto simp: stalled_def worker_started_def)
  from stalled_steps [OF assms(1) this] show ?thesis by (auto simp: stalled_def)
qed

theorem empty_item_stalls_writer_witness:
  "\<exists>q. deco_put [] demo_queue [] 0 = Inr (0, q) \<and> deco_cont q = [[]] \<and>
     (\<forall>st tr. worker_steps local_source local_kernel
        (worker_started (demo_worker\<lparr>cw_m_queue_for_writing := Some q\<rparr>) (Some demo_local)) st tr \<longrightarrow> written tr = [])"
proof -
  obtain r q where q: "deco_put [] demo_queue [] 0 = Inr (r, q)" "deco_inv q"
      "(r, deco_get_status q, deco_cont q) = fifo_put 2 [] [] 0"
    using deco_put_refines [OF demo_queue_fresh(1), of 0 "[]"] demo_queue_fresh(2,3) by auto
  then have c: "r = 0" "deco_cont q = [] # []" by (simp_all add: fifo_put_def)
  show ?thesis
    using empty_item_stalls_writer [OF _ _ q(2) c(2), of local_source local_kernel
        "demo_worker\<lparr>cw_m_queue_for_writing := Some q\<rparr>" "Some demo_local"] q(1) c by auto
qed

text \<open>
  Statistics: over any sequence of bytes sent and received and of queries, the totals, as 64-bit
  numbers, are the sums of the chunks the queries reported plus the chunk not yet reported.
\<close>

theorem statistics_add_up:
  assumes "cw_m_statistics w = statistics_zero" and "stat_run w ops = (ss, w')"
  shows "total_sent_bytes (cw_m_statistics w') = stat_sum chunk_sent_bytes ss + chunk_sent_bytes (cw_m_statistics w')
    \<and> total_recv_bytes (cw_m_statistics w') = stat_sum chunk_recv_bytes ss + chunk_recv_bytes (cw_m_statistics w')"
  using stat_run_sent [OF assms(2)] stat_run_recv [OF assms(2)] assms(1) by (simp add: statistics_zero_def)

theorem statistics_add_up_witness:
  "(let w' = snd (stat_run demo_worker [Stat_sent 5, Stat_query 100, Stat_recv 7, Stat_sent 2])
    in total_sent_bytes (cw_m_statistics w') = 7 \<and> chunk_sent_bytes (cw_m_statistics w') = 2)"
  using statistics_add_up [of demo_worker "[Stat_sent 5, Stat_query 100, Stat_recv 7, Stat_sent 2]"]
  by (simp add: demo_worker_def ConnectionWorker_ctor_def get_connection_statistics_def add_sent_def
      add_recv_def statistics_zero_def stat_sum_def)

end
