(* ===== verification/Unparsed_Stream.thy ===== *)
theory Unparsed_Stream
  imports Socket_Workers "HOL-Library.Sublist"
begin

text \<open>
  A worker without a parser: \<open>thread_read_from_source\<close> puts what one read returned into the reading queue as
  one item, and does not look at the result of that \<open>put\<close>. This is also how a worker behaves between its
  \<open>start\<close> and a later \<open>set_parser\<close>.
\<close>

text \<open>The pieces of the stream, as the reads returned them.\<close>

definition chunks :: "worker_event list \<Rightarrow> bytes list" where
  "chunks tr = concat (map (\<lambda>e. case e of E_Received bs \<Rightarrow> [bs] | _ \<Rightarrow> []) tr)"

lemma chunks_simps [simp]:
  "chunks [] = []" "chunks (tr @ es) = chunks tr @ chunks es"
  "chunks [e] = (case e of E_Received bs \<Rightarrow> [bs] | _ \<Rightarrow> [])" "chunks (os_events evs) = []"
  by (simp_all add: chunks_def os_events_def)

lemma received_chunks: "received tr = concat (chunks tr)"
  by (induction tr) (auto simp: received_def chunks_def split: worker_event.splits)

lemma no_chunks: "received tr = [] \<Longrightarrow> [] \<notin> set (chunks tr) \<Longrightarrow> chunks tr = []"
  unfolding received_chunks by (cases "chunks tr") auto

text \<open>The chunk in the array of the reading thread; it has disposed of all others.\<close>

definition held :: "'s worker_run \<Rightarrow> bytes list" where
  "held st = (case wr_rpc st of R_Check n \<Rightarrow> if n > 0 then [sa_data (wr_rarr st)] else [] | _ \<Rightarrow> [])"

lemma held_cong: "wr_rpc st' = wr_rpc st \<Longrightarrow> wr_rarr st' = wr_rarr st \<Longrightarrow> held st' = held st"
  by (cases "wr_rpc st") (simp_all add: held_def)

definition raw_at :: "'s worker_run \<Rightarrow> worker_event list \<Rightarrow> queue_obj \<Rightarrow> bytes list \<Rightarrow> bool" where
  "raw_at st tr q done \<longleftrightarrow>
     cw_m_queue_for_reading (wr_worker st) = Some q \<and> deco_inv q \<and> queued tr = consumed tr @ deco_cont q
     \<and> cw_m_parser (wr_worker st) = None
     \<and> SizedArray_size (wr_rarr st) = connection_worker_arr_size \<and> sa_ok (wr_rarr st)
     \<and> (\<exists>n. wr_rpc st \<in> {R_While, R_Read, R_Check n, R_Exit, R_Done})
     \<and> chunks tr = done @ held st
     \<and> (\<forall>n. wr_rpc st = R_Check n \<and> n > 0 \<longrightarrow> n = int (SizedArray_data_size (wr_rarr st)))
     \<and> subseq (consumed tr @ deco_cont q) done"

definition raw_inv :: "'s worker_run \<Rightarrow> worker_event list \<Rightarrow> bool" where
  "raw_inv st tr \<longleftrightarrow> (\<exists>q done. raw_at st tr q done)"

lemma raw_inv_frame:
  assumes "raw_inv st tr" and "wr_rpc st' = wr_rpc st" and "wr_rarr st' = wr_rarr st"
    and "cw_m_queue_for_reading (wr_worker st') = cw_m_queue_for_reading (wr_worker st)"
    and "cw_m_parser (wr_worker st') = cw_m_parser (wr_worker st)"
    and "chunks es = []" and "queued es = []" and "consumed es = []"
  shows "raw_inv st' (tr @ es)"
  using assms held_cong [OF assms(2,3)] by (simp add: raw_inv_def raw_at_def)

text \<open>The step that puts a chunk into the queue, or drops it.\<close>

lemma raw_put_step:
  assumes at: "raw_at st tr q done" and pc: "wr_rpc st = R_Check n" "n > 0"
    and stay: "\<not> reader_leaves (wr_worker st)"
    and step: "thread_read_from_source ops st ra = Inr (st', es)"
  shows "raw_at st' (tr @ es) (the (cw_m_queue_for_reading (wr_worker st'))) (chunks tr)"
    and "cw_m_queue_for_reading (wr_worker st') \<noteq> None"
proof -
  let ?d = "sa_data (wr_rarr st)"
  let ?n = "word_of_nat (SizedArray_data_size (wr_rarr st)) :: u16"
  from at pc have q: "cw_m_queue_for_reading (wr_worker st) = Some q" "deco_inv q"
      "cw_m_parser (wr_worker st) = None" "chunks tr = done @ [?d]" "queued tr = consumed tr @ deco_cont q"
    by (simp_all add: raw_at_def held_def)
  have sub: "subseq (consumed tr @ deco_cont q) done" using at by (simp add: raw_at_def)
  from at have size: "SizedArray_data_size (wr_rarr st) \<le> 65535"
      "SizedArray_data_size (wr_rarr st) \<le> length (sa_elems (wr_rarr st))"
    by (auto simp: raw_at_def sa_ok_def op_defs connection_worker_arr_size_def)
  then have n: "unat ?n = SizedArray_data_size (wr_rarr st)" by (simp add: unat_of_nat)
  have item: "take (unat ?n) (sa_elems (wr_rarr st)) = ?d" unfolding n by (simp add: sa_data_def op_defs)
  from step pc stay q(1,3) obtain r q' where
    put: "deco_put [] q (sa_elems (wr_rarr st)) ?n = Inr (r, q')"
    and st': "wr_rpc st' = R_While" "wr_rarr st' = wr_rarr st" "cw_m_queue_for_reading (wr_worker st') = Some q'"
      "cw_m_parser (wr_worker st') = None"
      "es = (if deco_get_status q' = STATUS_QUEUEBASE_OK then [E_Queued ?d] else [])"
    by (auto simp: thread_read_from_source_def Let_def rbind_eq_Inr put_reading_def item)
  have "unat ?n \<le> length (sa_elems (wr_rarr st))" using n size(2) by simp
  note q' = put_item [OF q(2) this put]
  have ok: "deco_get_status q' = STATUS_QUEUEBASE_OK \<Longrightarrow> deco_cont q' = deco_cont q @ [?d]"
    using q'(2) item by simp
  have keep: "subseq (consumed tr @ deco_cont q) (done @ [?d])" using sub by (rule list_emb_prefix)
  have snoc: "subseq ((consumed tr @ deco_cont q) @ [?d]) (done @ [?d])"
    by (rule list_emb_append_mono [OF sub]) simp
  have fin: "cw_m_queue_for_reading (wr_worker st') = Some q' \<and> deco_inv q'
      \<and> queued (tr @ es) = consumed (tr @ es) @ deco_cont q' \<and> chunks (tr @ es) = chunks tr
      \<and> subseq (consumed (tr @ es) @ deco_cont q') (chunks tr)"
    using ok q'(1,3) q(4,5) st'(3,5) keep snoc
    by (cases "deco_get_status q' = STATUS_QUEUEBASE_OK") simp_all
  show "raw_at st' (tr @ es) (the (cw_m_queue_for_reading (wr_worker st'))) (chunks tr)"
    using fin at st'(1-4) unfolding raw_at_def by (simp add: held_def)
  show "cw_m_queue_for_reading (wr_worker st') \<noteq> None" using st'(3) by simp
qed

context worker_source
begin

lemma raw_step_inv:
  assumes inv: "raw_inv st tr" and step: "thread_read_from_source ops st ra = Inr (st', es)"
  shows "raw_inv st' (tr @ es)"
proof -
  from inv obtain q dn where at: "raw_at st tr q dn" unfolding raw_inv_def by blast
  then consider "wr_rpc st = R_Read" | n where "wr_rpc st = R_Check n"
    | "wr_rpc st \<in> {R_While, R_Exit, R_Done}"
    unfolding raw_at_def by blast
  then show ?thesis
  proof cases
    case 1
    from step 1 obtain n s' arr' evs where
      rd: "so_read ops (wr_source st) (wr_rarr st) ra = Inr (n, s', arr', evs)"
      and st': "st' = st\<lparr>wr_source := s', wr_rarr := arr', wr_rpc := R_Check n\<rparr>"
        "es = os_events evs @ (if n > 0 then [E_Received (sa_data arr')] else [])"
      by (auto simp: thread_read_from_source_def Let_def rbind_eq_Inr)
    have "raw_at st' (tr @ es) q (chunks tr)"
      using at 1 read_law [OF _ rd] by (auto simp: raw_at_def st' held_def)
    then show ?thesis unfolding raw_inv_def by blast
  next
    case (2 n)
    show ?thesis
    proof (cases "n > 0 \<and> \<not> reader_leaves (wr_worker st)")
      case True
      with raw_put_step(1) [OF at 2 _ _ step] show ?thesis unfolding raw_inv_def by blast
    next
      case False
      with step 2 consider "es = []" "st' = st\<lparr>wr_rpc := R_Exit\<rparr>" | "es = []" "st' = st\<lparr>wr_rpc := R_While\<rparr>"
        by (auto simp: thread_read_from_source_def Let_def split: if_splits)
      moreover have "subseq (consumed tr @ deco_cont q) (chunks tr)"
        using at unfolding raw_at_def by (metis list_emb_prefix)
      ultimately have "raw_at st' (tr @ es) q (chunks tr)"
        using at 2 by cases (simp_all add: raw_at_def held_def)
      then show ?thesis unfolding raw_inv_def by blast
    qed
  next
    case 3
    with step at have "raw_at st' (tr @ es) q dn"
      by (auto simp: thread_read_from_source_def raw_at_def held_def split: if_splits)
    then show ?thesis unfolding raw_inv_def by blast
  qed
qed

lemma steps_raw_inv:
  assumes "worker_steps ops wok st0 st tr" and "raw_inv st0 []"
  shows "raw_inv st tr"
  using assms
proof (induction rule: worker_steps.induct)
  case ws_start
  then show ?case by simp
next
  case (ws_reader st tr ra st' es)
  then show ?case using raw_step_inv by blast
next
  case (ws_writer st tr wa st' es)
  have "chunks es = []"
    using ws_writer.hyps(3) by (auto simp: thread_write_to_source_def Let_def rbind_eq_Inr
        split: write_pc.splits if_splits option.splits)
  note facts = this writer_frame [OF ws_writer.hyps(3)]
  show ?case by (rule raw_inv_frame [OF ws_writer.IH [OF ws_writer.prems]]) (fact facts)+
next
  case (ws_guard st tr st' es)
  then show ?case using raw_inv_frame [of st tr st' es] guard_frame [of st st' es] by simp
next
  case (ws_put st tr n buf st' es)
  have "chunks es = []" using ws_put.hyps(3) by (auto simp: user_put_def rbind_eq_Inr split: option.splits)
  note facts = this user_put_frame [OF ws_put.hyps(3)]
  show ?case by (rule raw_inv_frame [OF ws_put.IH [OF ws_put.prems]]) (fact facts)+
next
  case (ws_get st tr out st' es)
  then obtain q dn where at: "raw_at st tr q dn" unfolding raw_inv_def by blast
  then have "cw_m_queue_for_reading (wr_worker st) = Some q" "deco_inv q" by (simp_all add: raw_at_def)
  from user_get_frame [OF ws_get.hyps(3,2) this] obtain q' where
    q': "st' = st\<lparr>wr_worker := (wr_worker st)\<lparr>cw_m_queue_for_reading := Some q'\<rparr>\<rparr>" "deco_inv q'"
      "deco_cont q = consumed es @ deco_cont q'" "queued es = []" by blast
  have "chunks es = []" using ws_get.hyps(3) by (auto simp: user_get_def rbind_eq_Inr split: option.splits)
  moreover have "held st' = held st" by (rule held_cong) (simp_all add: q'(1))
  ultimately have "raw_at st' (tr @ es) q' dn"
    using at q'(2-) unfolding raw_at_def q'(1) by simp
  then show ?case unfolding raw_inv_def by blast
next
  case (ws_stop st tr)
  then show ?case
    using raw_inv_frame [of st tr "st\<lparr>wr_worker := ConnectionWorker_stop (wr_worker st)\<rparr>" "[]"]
    by (simp add: ConnectionWorker_stop_def)
qed

text \<open>What a worker without a parser does with the stream.\<close>

lemma raw_worker_reads:
  assumes "worker_steps ops wok (worker_started w s) st tr" and "fresh_queue (cw_m_queue_for_reading w)"
    and "cw_m_parser w = None"
  shows "\<exists>q done. cw_m_queue_for_reading (wr_worker st) = Some q \<and> deco_inv q
    \<and> chunks tr = done @ held st \<and> subseq (consumed tr @ deco_cont q) done \<and> cw_m_parser (wr_worker st) = None
    \<and> (\<forall>n. wr_rpc st = R_Check n \<and> n > 0 \<longrightarrow> n = int (SizedArray_data_size (wr_rarr st)))
    \<and> SizedArray_size (wr_rarr st) = connection_worker_arr_size \<and> sa_ok (wr_rarr st)"
proof -
  from assms(2) obtain q where "cw_m_queue_for_reading w = Some q" "deco_inv q" "deco_cont q = []"
    by (auto simp: fresh_queue_def split: option.splits)
  then have "raw_at (worker_started w s) [] q []"
    using assms(3) by (simp add: raw_at_def worker_started_def held_def)
  then have "raw_inv (worker_started w s) []" unfolding raw_inv_def by blast
  from steps_raw_inv [OF assms(1) this] obtain q dn where at: "raw_at st tr q dn" unfolding raw_inv_def by blast
  then show ?thesis unfolding raw_at_def by blast
qed

end

subsection \<open>A full queue\<close>

text \<open>The reading thread with a chunk in its array, no parser and a full queue: the chunk is lost.\<close>

lemma full_queue_drops:
  assumes "wr_rpc st = R_Check n" and "n > 0" and "\<not> reader_leaves (wr_worker st)"
    and "cw_m_parser (wr_worker st) = None" and "cw_m_queue_for_reading (wr_worker st) = Some q"
    and "deco_inv q" and "length (deco_cont q) = deco_cap q"
    and "SizedArray_size (wr_rarr st) = connection_worker_arr_size" and "sa_ok (wr_rarr st)"
  shows "\<exists>st' q'. thread_read_from_source ops st ra = Inr (st', []) \<and> wr_rpc st' = R_While
    \<and> cw_m_queue_for_reading (wr_worker st') = Some q' \<and> deco_cont q' = deco_cont q"
proof -
  let ?n = "word_of_nat (SizedArray_data_size (wr_rarr st)) :: u16"
  from assms(8,9) have size: "SizedArray_data_size (wr_rarr st) \<le> 65535"
      "SizedArray_data_size (wr_rarr st) \<le> length (sa_elems (wr_rarr st))"
    by (auto simp: sa_ok_def op_defs connection_worker_arr_size_def)
  then have "unat ?n \<le> length (sa_elems (wr_rarr st))" by (simp add: unat_of_nat)
  from deco_put_refines [OF assms(6) this] assms(7) obtain r q' where
    "deco_put [] q (sa_elems (wr_rarr st)) ?n = Inr (r, q')" "deco_cont q' = deco_cont q"
    "deco_get_status q' \<noteq> STATUS_QUEUEBASE_OK"
    by (auto simp: fifo_put_def)
  with assms(1-5) show ?thesis by (simp add: thread_read_from_source_def Let_def put_reading_def)
qed

subsection \<open>Properties\<close>

text \<open>
  C23. A TCP worker without a parser, in every interleaving: every item its users see is what one read
  returned, whole, in the order of the reads and at most once. But items can be missing: when the reading
  thread holds a chunk, was not asked to leave and the queue is full, its next step drops the chunk and goes
  on to the next read, where a worker with a parser would try again.
\<close>

theorem worker_without_parser:
  assumes "worker_steps tcp_source tcp_kernel (worker_started w s) st tr"
    and "fresh_queue (cw_m_queue_for_reading w)" and "cw_m_parser w = None"
  shows "\<exists>q done. cw_m_queue_for_reading (wr_worker st) = Some q \<and> chunks tr = done @ held st
    \<and> subseq (consumed tr @ deco_cont q) done
    \<and> (held st \<noteq> [] \<and> \<not> reader_leaves (wr_worker st) \<and> length (deco_cont q) = deco_cap q \<longrightarrow>
        (\<forall>ra. \<exists>st' q'. thread_read_from_source tcp_source st ra = Inr (st', []) \<and> wr_rpc st' = R_While
           \<and> cw_m_queue_for_reading (wr_worker st') = Some q' \<and> deco_cont q' = deco_cont q))"
proof -
  from tw.raw_worker_reads [OF assms] obtain q dn where
    q: "cw_m_queue_for_reading (wr_worker st) = Some q" "deco_inv q" "cw_m_parser (wr_worker st) = None"
      "SizedArray_size (wr_rarr st) = connection_worker_arr_size" "sa_ok (wr_rarr st)"
    and seen: "chunks tr = dn @ held st" "subseq (consumed tr @ deco_cont q) dn" by blast
  have "\<exists>st' q'. thread_read_from_source tcp_source st ra = Inr (st', []) \<and> wr_rpc st' = R_While
      \<and> cw_m_queue_for_reading (wr_worker st') = Some q' \<and> deco_cont q' = deco_cont q"
    if "held st \<noteq> []" "\<not> reader_leaves (wr_worker st)" "length (deco_cont q) = deco_cap q" for ra
  proof -
    from that(1) obtain n where "wr_rpc st = R_Check n" "n > 0"
      by (auto simp: held_def split: read_pc.splits if_splits)
    from full_queue_drops [OF this that(2) q(3,1,2) that(3) q(4,5)] show ?thesis .
  qed
  with q(1) seen show ?thesis by (intro exI [of _ q] exI [of _ dn]) simp
qed

theorem worker_without_parser_witness:
  "\<exists>st q done. worker_steps tcp_source tcp_kernel
       (worker_started (demo_worker\<lparr>cw_m_parser := None\<rparr>) (Some demo_socket)) st [E_Received [255, 255]]
     \<and> cw_m_queue_for_reading (wr_worker st) = Some q \<and> [[255, 255]] = done @ held st
     \<and> subseq (deco_cont q) done"
proof -
  let ?w = "demo_worker\<lparr>cw_m_parser := None\<rparr>"
  have "\<not> reader_leaves ?w" using demo_worker_simps(7) by (simp add: reader_leaves_def)
  then obtain st where st: "worker_steps tcp_source tcp_kernel (worker_started ?w (Some demo_socket)) st
      [E_Received [255, 255]]"
    using demo_read_any [of ?w] by auto
  have "fresh_queue (cw_m_queue_for_reading ?w)" using demo_worker_simps(1) by simp
  from worker_without_parser [OF st this] st show ?thesis by auto
qed

end
