(* ===== verification/Network_Transfer.thy ===== *)
theory Network_Transfer
  imports Socket_Workers
begin

text \<open>
  Two TCP workers on one connection. What the writing thread of one worker puts on the wire is related to
  what its users put into the writing queue, on every interleaving and also when the connection breaks;
  together with the reading side of the other worker this gives the transfer of datagrams from the users of
  one process to the users of another.
\<close>

subsection \<open>A kernel that does not ask for a retry in the middle of a write\<close>

text \<open>
  \<open>TCPSocket::write\<close> returns 0 on \<open>EAGAIN\<close> and \<open>ENOBUFS\<close> and the caller repeats the whole write, so these
  answers are harmless only for the first \<open>send\<close> of a write (see \<open>TCPSocket_retry_duplicates\<close>).
\<close>

definition all_or_nothing :: "send_answer list \<Rightarrow> bool" where
  "all_or_nothing as =
     (case as of
        Sent n # rest \<Rightarrow> list_all (\<lambda>a. a \<noteq> Send_error EAGAIN \<and> a \<noteq> Send_error ENOBUFS) rest
      | _ \<Rightarrow> True)"

definition steady_kernel :: "tcp_socket option \<Rightarrow> u8 sized_array \<Rightarrow> send_answer list \<Rightarrow> bool" where
  "steady_kernel s buf as \<longleftrightarrow> tcp_kernel s buf as \<and> all_or_nothing as"

lemma send_loop_retry:
  assumes "list_all (\<lambda>a. a \<noteq> Send_error EAGAIN \<and> a \<noteq> Send_error ENOBUFS) as"
    and "0 < SizedArray_data_size buf"
  shows "TCPSocket_send_loop s buf k as \<noteq> Some (0, s', buf', es, as')"
  using assms
proof (induction as arbitrary: k es)
  case Nil
  then show ?case by auto
next
  case (Cons a as)
  then show ?case by (cases a) (auto split: option.splits prod.splits)
qed

lemma write_retry_sends_nothing:
  assumes "all_or_nothing as" and "0 < SizedArray_data_size buf"
    and "TCPSocket_write s buf as = Some (0, s', buf', es, as')"
  shows "es = []"
  using assms
  by (cases as)
    (auto simp: TCPSocket_write_def Let_def all_or_nothing_def send_loop_retry
      split: if_splits send_answer.splits option.splits prod.splits)

lemma worker_steps_mono:
  assumes "worker_steps ops wok st0 st tr" and "\<And>s buf wa. wok s buf wa \<Longrightarrow> wok' s buf wa"
  shows "worker_steps ops wok' st0 st tr"
  using assms(1)
proof (induction rule: worker_steps.induct)
  case (ws_writer st tr wa st' es)
  then show ?case using worker_steps.ws_writer [of ops wok' st0 st tr wa] assms(2) by blast
qed (blast intro: worker_steps.intros)+

subsection \<open>The wire of a worker\<close>

text \<open>
  The source is the socket the worker was started on, or that socket closed. The wire holds the items
  written; after a failed write, a proper prefix of the next item too, and then the writing thread ends.
\<close>

definition broken_off :: "'s worker_run \<Rightarrow> bytes \<Rightarrow> bool" where
  "broken_off st p \<longleftrightarrow> wr_wpc st \<in> {W_Exit, W_Done}
     \<and> (\<exists>q d ds j. cw_m_queue_for_writing (wr_worker st) = Some q \<and> deco_cont q = d # ds
          \<and> j < length d \<and> p = take j d)"

definition wire_inv :: "tcp_socket \<Rightarrow> tcp_socket option worker_run \<Rightarrow> worker_event list \<Rightarrow> bool" where
  "wire_inv s st tr \<longleftrightarrow>
     (\<exists>p. wire (ts_m_descr s) (os_trace tr) = concat (written tr) @ p \<and> (p = [] \<or> broken_off st p)
        \<and> (wr_source st = Some s \<and> p = [] \<or> wr_source st = Some (closed_socket s)))"

definition open_socket :: "tcp_socket \<Rightarrow> bool" where
  "open_socket s \<longleftrightarrow> ts_m_status s = TCPSOCKET_OK \<and> 0 < ts_m_descr s"

lemma closed_socket_fails:
  "TCPSocket_read (closed_socket s) buf ans = Inr (r, s', buf', es) \<Longrightarrow> r = -1 \<and> s' = closed_socket s \<and> es = []"
  "TCPSocket_write (closed_socket s) buf as = Some (r, s', buf', es, as') \<Longrightarrow> r = -1 \<and> s' = closed_socket s \<and> es = []"
  by (auto simp: TCPSocket_read_def TCPSocket_write_def closed_socket_def Let_def)

lemma open_socket_read:
  assumes "open_socket s" and "TCPSocket_read s buf ans = Inr (r, s', buf', es)"
  shows "wire d es = [] \<and> (s' = s \<or> s' = closed_socket s)"
proof -
  have "TCPSocket_reset_status s = s" using assms(1) by (simp add: open_socket_def op_defs)
  with assms show ?thesis
    by (auto simp: open_socket_def TCPSocket_read_def Let_def close_open rbind_eq_Inr closed_socket_def
        split: if_splits recv_answer.splits)
qed

lemma source_read_wire:
  assumes "open_socket s" and "os \<in> {Some s, Some (closed_socket s)}"
    and "so_read tcp_source os buf ra = Inr (r, os', buf', es)"
  shows "wire d es = [] \<and> os' \<in> {os, Some (closed_socket s)}"
proof -
  from assms(2) obtain s1 where s1: "os = Some s1" "s1 \<in> {s, closed_socket s}" by auto
  with assms(3) obtain r1 s2 where rd: "TCPSocket_read s1 buf ra = Inr (r1, s2, buf', es)" "os' = Some s2"
    by (auto simp: tcp_source_def TCPSocketWorker_read_data_from_source_def rbind_eq_Inr split: if_splits)
  from s1(2) consider "s1 = s" | "s1 = closed_socket s" by blast
  then show ?thesis
    by cases (use open_socket_read [OF assms(1)] closed_socket_fails(1) rd s1(1) in \<open>fastforce+\<close>)
qed

text \<open>A write of a non-empty item by a worker: nothing, everything, or a part and the end.\<close>

lemma source_write_wire:
  assumes "open_socket s" and "os \<in> {Some s, Some (closed_socket s)}" and "sa_ok buf" and "sa_data buf \<noteq> []"
    and "steady_kernel os buf wa" and "so_write tcp_source os buf wa = Inr (r, os', buf', es)"
  shows "r = 0 \<and> os' = os \<and> es = []
    \<or> r > 0 \<and> os = Some s \<and> os' = os \<and> wire (ts_m_descr s) es = sa_data buf
    \<or> r < 0 \<and> os' = Some (closed_socket s)
        \<and> (\<exists>j < length (sa_data buf). wire (ts_m_descr s) es = take j (sa_data buf) \<and> (os \<noteq> Some s \<longrightarrow> j = 0))"
proof -
  from assms(2) obtain s1 where s1: "os = Some s1" "s1 \<in> {s, closed_socket s}" by auto
  with assms(6) obtain r1 s2 as' where wr: "TCPSocket_write s1 buf wa = Some (r1, s2, buf', es, as')" "os' = Some s2"
    "r = (if r1 < 0 then -2 else r1)"
    by (auto simp: tcp_source_def TCPSocketWorker_write_data_to_source_def split: if_splits option.splits)
  note len = length_sa_data [OF assms(3)]
  have fits: "sends_fit (SizedArray_data_size buf) wa" "all_or_nothing wa"
    using assms(5) by (auto simp: steady_kernel_def tcp_kernel_def)
  from s1(2) consider "s1 = s" | "s1 = closed_socket s" "s1 \<noteq> s" by blast
  then show ?thesis
  proof cases
    case 1
    from assms(1) have "ts_m_status s1 = TCPSOCKET_OK" "ts_m_descr s1 > 0" by (simp_all add: 1 open_socket_def)
    from write_outcome [OF assms(3) this fits(1) wr(1)] show ?thesis
      using wr s1 1 len assms(4) write_retry_sends_nothing [OF fits(2), of buf s1 s2 buf' es as']
      by (auto simp: sent_all_def sent_part_def)
  next
    case 2
    from closed_socket_fails(2) [OF wr(1) [unfolded 2(1)]] wr(2,3) s1 2 assms(4) show ?thesis by auto
  qed
qed

lemma wire_inv_frame:
  assumes "wire_inv s st tr" and "wr_wpc st' = wr_wpc st" and "wr_source st' = wr_source st"
    and "\<And>q. cw_m_queue_for_writing (wr_worker st) = Some q \<Longrightarrow>
      \<exists>q' more. cw_m_queue_for_writing (wr_worker st') = Some q' \<and> deco_cont q' = deco_cont q @ more"
    and "written es = []" and "os_trace es = []"
  shows "wire_inv s st' (tr @ es)"
proof -
  have "broken_off st p \<Longrightarrow> broken_off st' p" for p
    using assms(2,4) unfolding broken_off_def by fastforce
  with assms(1,3,5,6) show ?thesis by (auto simp: wire_inv_def)
qed

lemma reader_wire_step:
  assumes op: "open_socket s" and inv: "wire_inv s st tr"
    and step: "thread_read_from_source tcp_source st ra = Inr (st', es)"
  shows "wire_inv s st' (tr @ es)"
proof (cases "wr_rpc st = R_Read")
  case False
  with step have "wr_source st' = wr_source st" "os_trace es = []"
    by (auto simp: thread_read_from_source_def Let_def rbind_eq_Inr put_reading_def
        split: read_pc.splits if_splits option.splits list.splits)
  with wire_inv_frame [OF inv reader_frame(1) [OF step]] reader_frame(3,7) [OF step] show ?thesis by simp
next
  case True
  with step obtain n os' arr' evs where
    rd: "so_read tcp_source (wr_source st) (wr_rarr st) ra = Inr (n, os', arr', evs)"
    and st': "st' = st\<lparr>wr_source := os', wr_rarr := arr', wr_rpc := R_Check n\<rparr>"
      "es = os_events evs @ (if n > 0 then [E_Received (sa_data arr')] else [])"
    by (auto simp: thread_read_from_source_def Let_def rbind_eq_Inr)
  have os: "wr_source st \<in> {Some s, Some (closed_socket s)}" using inv by (auto simp: wire_inv_def)
  have "wire (ts_m_descr s) evs = []" "os' \<in> {wr_source st, Some (closed_socket s)}"
    using source_read_wire [OF op os rd] by auto
  with inv show ?thesis by (auto simp: wire_inv_def st' broken_off_def)
qed

lemma writer_wire_step:
  assumes op: "open_socket s" and inv: "wire_inv s st tr" and w: "writer_inv st tr"
    and ok: "wr_wpc st = W_Write \<longrightarrow> steady_kernel (wr_source st) (wr_warr st) wa"
    and step: "thread_write_to_source tcp_source st wa = Inr (st', es)"
  shows "wire_inv s st' (tr @ es)"
proof (cases "wr_wpc st = W_Write")
  case False
  with step have "wr_source st' = wr_source st" "os_trace es = []" "written es = []"
    by (auto simp: thread_write_to_source_def Let_def rbind_eq_Inr
        split: write_pc.splits if_splits option.splits)
  moreover have "broken_off st p \<Longrightarrow> broken_off st' p" for p
    using step by (fastforce simp: broken_off_def thread_write_to_source_def)
  ultimately show ?thesis using inv by (auto simp: wire_inv_def)
next
  case True
  with w obtain q ds where q: "cw_m_queue_for_writing (wr_worker st) = Some q" "sa_ok (wr_warr st)"
      "sa_data (wr_warr st) \<noteq> []" "deco_cont q = sa_data (wr_warr st) # ds"
    by (auto simp: writer_inv_def)
  from step True obtain r os' arr' evs where
    wr: "so_write tcp_source (wr_source st) (wr_warr st) wa = Inr (r, os', arr', evs)"
    by (auto simp: thread_write_to_source_def rbind_eq_Inr Let_def)
  have os: "wr_source st \<in> {Some s, Some (closed_socket s)}" using inv by (auto simp: wire_inv_def)
  from inv True have now: "wire (ts_m_descr s) (os_trace tr) = concat (written tr)"
    by (auto simp: wire_inv_def broken_off_def)
  have st': "wr_source st' = os'" "wr_worker st' = wr_worker st"
      "wr_wpc st' = (if r = 0 then W_Write else if r < 0 then W_Exit else W_Get r)"
      "es = os_events evs @ (if r > 0 then [E_Written (sa_data (wr_warr st))] else [])"
    using step True wr by (auto simp: thread_write_to_source_def Let_def split: if_splits)
  from source_write_wire [OF op os q(2,3) ok [rule_format, OF True] wr]
  consider "r = 0" "os' = wr_source st" "evs = []"
    | "r > 0" "wr_source st = Some s" "os' = Some s" "wire (ts_m_descr s) evs = sa_data (wr_warr st)"
    | j where "r < 0" "os' = Some (closed_socket s)" "j < length (sa_data (wr_warr st))"
        "wire (ts_m_descr s) evs = take j (sa_data (wr_warr st))"
    by auto
  then show ?thesis
  proof cases
    case 1
    with inv True show ?thesis by (auto simp: wire_inv_def st' broken_off_def)
  next
    case 2
    with now show ?thesis by (simp add: wire_inv_def st')
  next
    case 3
    then have "broken_off st' (take j (sa_data (wr_warr st)))"
      using q(1,4) by (auto simp: broken_off_def st')
    with 3 now show ?thesis by (auto simp: wire_inv_def st')
  qed
qed

lemma steady_is_tcp: "steady_kernel os buf as \<Longrightarrow> tcp_kernel os buf as"
  by (simp add: steady_kernel_def)

lemma steps_wire_inv:
  assumes "worker_steps tcp_source steady_kernel st0 st tr" and "open_socket s"
    and "writer_inv st0 []" and "wire_inv s st0 []"
  shows "wire_inv s st tr"
  using assms(1,4)
proof (induction rule: worker_steps.induct)
  case ws_start
  then show ?case by simp
next
  case (ws_reader st tr ra st' es)
  then show ?case using reader_wire_step [OF assms(2)] by blast
next
  case (ws_writer st tr wa st' es)
  have "writer_inv st tr"
    by (rule tw.steps_writer_inv [OF worker_steps_mono [OF ws_writer.hyps(1) steady_is_tcp] assms(3)])
  with ws_writer show ?case using writer_wire_step [OF assms(2)] by blast
next
  case (ws_guard st tr st' es)
  then show ?case using wire_inv_frame [of s st tr st' es] guard_frame [of st st' es] by simp
next
  case (ws_put st tr n buf st' es)
  have "writer_inv st tr"
    by (rule tw.steps_writer_inv [OF worker_steps_mono [OF ws_put.hyps(1) steady_is_tcp] assms(3)])
  then obtain q where q: "cw_m_queue_for_writing (wr_worker st) = Some q" "deco_inv q"
    by (auto simp: writer_inv_def)
  with ws_put.hyps(3) obtain r q' where pt: "deco_put [] q buf n = Inr (r, q')"
    and st': "st' = st\<lparr>wr_worker := (wr_worker st)\<lparr>cw_m_queue_for_writing := Some q'\<rparr>\<rparr>"
      "es = (if deco_get_status q' = STATUS_QUEUEBASE_OK then [E_Produced (take (unat n) buf)] else [])"
    by (auto simp: user_put_def rbind_eq_Inr)
  have "\<exists>more. deco_cont q' = deco_cont q @ more"
    using put_item [OF q(2) ws_put.hyps(2) pt] by (cases "deco_get_status q' = STATUS_QUEUEBASE_OK") auto
  with wire_inv_frame [OF ws_put.IH [OF ws_put.prems], of st' es] q show ?case by (auto simp: st')
next
  case (ws_get st tr out st' es)
  then have "wr_wpc st' = wr_wpc st" "wr_source st' = wr_source st" "written es = []" "os_trace es = []"
    "cw_m_queue_for_writing (wr_worker st') = cw_m_queue_for_writing (wr_worker st)"
    by (auto simp: user_get_def rbind_eq_Inr split: option.splits if_splits)
  with ws_get wire_inv_frame [of s st tr st' es] show ?case by simp
next
  case (ws_stop st tr)
  then show ?case
    using wire_inv_frame [of s st tr "st\<lparr>wr_worker := ConnectionWorker_stop (wr_worker st)\<rparr>" "[]"]
    by (simp add: ConnectionWorker_stop_def)
qed

lemma started_wire_inv: "wire_inv s (worker_started w (Some s)) []"
  by (simp add: wire_inv_def worker_started_def)

lemma tcp_worker_wire:
  assumes "worker_steps tcp_source steady_kernel (worker_started w (Some s)) st tr"
    and "fresh_queue (cw_m_queue_for_writing w)" and "open_socket s"
  shows "\<exists>p. wire (ts_m_descr s) (os_trace tr) = concat (written tr) @ p \<and> (p = [] \<or> broken_off st p)"
  using steps_wire_inv [OF assms(1,3) started_writer_inv [OF assms(2)] started_wire_inv]
  by (auto simp: wire_inv_def)

lemma tcp_wire_prefix:
  assumes "worker_steps tcp_source steady_kernel (worker_started w (Some s)) st tr"
    and "fresh_queue (cw_m_queue_for_writing w)" and "open_socket s"
  shows "\<exists>q rest. cw_m_queue_for_writing (wr_worker st) = Some q
    \<and> wire (ts_m_descr s) (os_trace tr) @ rest = concat (produced tr) \<and> (deco_cont q = [] \<longrightarrow> rest = [])"
proof -
  from tcp_worker_wire [OF assms] obtain p where
    p: "wire (ts_m_descr s) (os_trace tr) = concat (written tr) @ p" "p = [] \<or> broken_off st p" by blast
  have "writer_inv st tr"
    by (rule tw.steps_writer_inv [OF worker_steps_mono [OF assms(1) steady_is_tcp] started_writer_inv [OF assms(2)]])
  then obtain q where q: "cw_m_queue_for_writing (wr_worker st) = Some q"
    and get: "(\<exists>n. wr_wpc st = W_Get n) \<longrightarrow>
      (\<exists>d ds ws. deco_cont q = d # ds \<and> written tr = ws @ [d] \<and> produced tr = ws @ d # ds)"
    and other: "(\<forall>n. wr_wpc st \<noteq> W_Get n) \<longrightarrow> produced tr = written tr @ deco_cont q"
    unfolding writer_inv_def by - (elim exE conjE, rule that)
  consider "\<exists>n. wr_wpc st = W_Get n" | "\<forall>n. wr_wpc st \<noteq> W_Get n" "p = []"
    | "\<forall>n. wr_wpc st \<noteq> W_Get n" "broken_off st p"
    using p(2) by blast
  then have "\<exists>rest. concat (written tr) @ p @ rest = concat (produced tr) \<and> (deco_cont q = [] \<longrightarrow> rest = [])"
  proof cases
    case 1
    then have "p = []" using p(2) by (auto simp: broken_off_def)
    from get [rule_format, OF 1] obtain d ds ws where
      "deco_cont q = d # ds" "written tr = ws @ [d]" "produced tr = ws @ d # ds" by blast
    with \<open>p = []\<close> show ?thesis by simp
  next
    case 2
    with other [rule_format] show ?thesis by simp
  next
    case 3
    then obtain d ds j where "deco_cont q = d # ds" "p = take j d" using q by (auto simp: broken_off_def)
    with other [rule_format, OF 3(1) [rule_format]] show ?thesis by (intro exI [of _ "drop j d @ concat ds"]) simp
  qed
  with p(1) q show ?thesis by auto
qed

text \<open>
  One direction of a connection. \<open>es\<close> is what the sender's process asks of its kernel; it may hold requests
  of other parts of the process too.
\<close>

lemma tcp_transfer:
  assumes "worker_steps tcp_source steady_kernel (worker_started w1 (Some s1)) st1 tr1"
    and "fresh_queue (cw_m_queue_for_writing w1)" and "open_socket s1"
    and "\<forall>d \<in> set ps. length d \<le> 65523"
    and "map (\<lambda>d. prepare_data_for_sending d (length d)) ps = map Inr (produced tr1)"
    and "wire (ts_m_descr s1) es = wire (ts_m_descr s1) (os_trace tr1)"
    and "received tr2 @ in_flight = wire (ts_m_descr s1) es"
    and "worker_steps tcp_source tcp_kernel (worker_started w2 s2) st2 tr2"
    and "fresh_queue (cw_m_queue_for_reading w2)" and "cw_m_parser w2 = Some (Obj_ParserExample ParserExample_ctor)"
  shows "\<exists>q1 q2 later. cw_m_queue_for_writing (wr_worker st1) = Some q1
    \<and> cw_m_queue_for_reading (wr_worker st2) = Some q2 \<and> consumed tr2 @ deco_cont q2 @ later = produced tr1
    \<and> (deco_cont q1 = [] \<and> in_flight = [] \<and> wr_rpc st2 = R_Read \<longrightarrow> later = [])"
proof -
  from tcp_wire_prefix [OF assms(1-3)] obtain q1 rest where
    q1: "cw_m_queue_for_writing (wr_worker st1) = Some q1" "deco_cont q1 = [] \<longrightarrow> rest = []"
    and wire: "wire (ts_m_descr s1) (os_trace tr1) @ rest = concat (produced tr1)" by blast
  have "received tr2 @ in_flight @ rest = concat (produced tr1)"
    using assms(6,7) wire by (metis append.assoc)
  from tw.worker_delivers [OF assms(8-10,4,5) this] q1 show ?thesis by auto
qed

subsection \<open>The writing thread empties its queue\<close>

definition writer_ready :: "tcp_socket \<Rightarrow> tcp_socket option worker_run \<Rightarrow> bytes list \<Rightarrow> bool" where
  "writer_ready s st ds \<longleftrightarrow> source_ready (Some s) st ds"

text \<open>The answers of a kernel that takes the item \<open>f\<close> whole, for the five steps of one round of the loop.\<close>

definition round_answers :: "bytes \<Rightarrow> send_answer list list" where
  "round_answers f = [[], [], [], [Sent (length f)], []]"

lemma write_whole:
  assumes "open_socket s" and "sa_ok buf" and "sa_data buf \<noteq> []"
  shows "TCPSocket_write s buf [Sent (length (sa_data buf))]
    = Some (int (length (sa_data buf)), s, SizedArray_clear buf, [Ev_Send (ts_m_descr s) (sa_data buf)], [])"
proof -
  have "TCPSocket_reset_status s = s" using assms(1) by (simp add: open_socket_def op_defs)
  with assms show ?thesis using length_sa_data [OF assms(2)] data_size_pos [OF assms(2,3)]
    by (simp add: TCPSocket_write_def open_socket_def)
qed

lemma source_write_whole:
  assumes "open_socket s" and "sa_ok arr" and "sa_data arr = f" and "f \<noteq> []"
  shows "so_write tcp_source (Some s) arr [Sent (length f)]
      = Inr (int (length f), Some s, SizedArray_clear arr, [Ev_Send (ts_m_descr s) f])
      \<and> steady_kernel (Some s) arr [Sent (length f)]"
  using write_whole [OF assms(1,2)] assms(3,4) length_sa_data [OF assms(2)]
  by (simp add: tcp_source_def TCPSocketWorker_write_data_to_source_def steady_kernel_def tcp_kernel_def
      all_or_nothing_def)

lemma writer_round:
  assumes op: "open_socket s" and rd: "writer_ready s st (f # ds)" and f: "f \<noteq> []"
  shows "\<exists>st'. run_writer tcp_source st (round_answers f)
      = Inr (st', [E_Os [Ev_Send (ts_m_descr s) f], E_Written f]) \<and> writer_ready s st' ds
    \<and> (\<forall>st0 tr. worker_steps tcp_source steady_kernel st0 st tr \<longrightarrow>
          worker_steps tcp_source steady_kernel st0 st' (tr @ [E_Os [Ev_Send (ts_m_descr s) f], E_Written f]))"
proof -
  note wr = source_write_whole [OF op _ _ f]
  from source_round [where ops = tcp_source and wok = steady_kernel and wa = "[Sent (length f)]" and a = "[]", OF rd [unfolded writer_ready_def] f wr] show ?thesis
    unfolding round_answers_def writer_ready_def by (simp add: os_events_def)
qed

lemma writer_rounds:
  assumes "open_socket s" and "writer_ready s st ds" and "[] \<notin> set ds"
  shows "\<exists>st' es. run_writer tcp_source st (concat (map round_answers ds)) = Inr (st', es)
    \<and> writer_ready s st' [] \<and> written es = ds \<and> wire (ts_m_descr s) (os_trace es) = concat ds"
  using assms(2,3)
proof (induction ds arbitrary: st)
  case (Cons f ds)
  then obtain st1 where 1: "run_writer tcp_source st (round_answers f)
      = Inr (st1, [E_Os [Ev_Send (ts_m_descr s) f], E_Written f])" "writer_ready s st1 ds"
    using writer_round [OF assms(1), of st f ds] by auto
  from Cons.prems(2) have "[] \<notin> set ds" by simp
  from Cons.IH [OF 1(2) this] obtain st2 es where 2:
    "run_writer tcp_source st1 (concat (map round_answers ds)) = Inr (st2, es)" "writer_ready s st2 []"
    "written es = ds" "wire (ts_m_descr s) (os_trace es) = concat ds" by blast
  show ?case using run_writer_append [OF 1(1) 2(1)] 2(2-4) by (auto simp: trace_defs)
qed simp

subsection \<open>A concrete run\<close>

definition demo_sender :: "tcp_socket option worker_run" where
  "demo_sender = worker_started demo_worker (Some demo_socket)"

lemma demo_put_run:
  assumes "length f < 65536"
  shows "\<exists>st. worker_steps tcp_source steady_kernel demo_sender st [E_Produced f] \<and> writer_ready demo_socket st [f]"
  unfolding demo_sender_def writer_ready_def by (rule demo_put [OF assms])

lemma demo_open [simp]: "open_socket demo_socket"
  by (simp add: open_socket_def)

lemma demo_write_run:
  assumes "length f < 65536" and "f \<noteq> []"
  shows "\<exists>st. worker_steps tcp_source steady_kernel demo_sender st [E_Produced f, E_Os [Ev_Send 5 f], E_Written f]
    \<and> writer_ready demo_socket st []"
proof -
  from demo_put_run [OF assms(1)] obtain st where
    "worker_steps tcp_source steady_kernel demo_sender st [E_Produced f]" "writer_ready demo_socket st [f]" by blast
  with writer_round [OF demo_open this(2) assms(2)]
  show ?thesis by (metis append_Cons append_Nil demo_simps(6))
qed

lemma demo_frame: "length (sent [7, 8]) < 65536" "sent [7, 8] \<noteq> []" "take 2 (sent [7, 8]) = [255, 255]"
  by (simp_all add: sent_def sent_head_def le32_bytes_def MAIN_WORD_def bytes_of_data_head_def)

subsection \<open>Properties\<close>





text \<open>
  C21. The writing thread of a TCP worker empties its queue: from its loop head, with an open socket and no
  request to leave, on a kernel that takes what it is given, five steps per item write every item of
  the queue, in order, and put exactly their bytes on the wire; then the thread is at its loop head again with
  an empty queue. (An empty item would stop it, see \<open>empty_item_stalls_writer\<close>.)
\<close>

theorem TCPSocketWorker_drains:
  assumes "wr_wpc st = W_While" and "\<not> writer_leaves (wr_worker st)"
    and "wr_source st = Some s" and "open_socket s"
    and "SizedArray_size (wr_warr st) = connection_worker_arr_size"
    and "cw_m_queue_for_writing (wr_worker st) = Some q" and "deco_inv q" and "[] \<notin> set (deco_cont q)"
  shows "\<exists>st' es q'. run_writer tcp_source st (concat (map round_answers (deco_cont q))) = Inr (st', es)
    \<and> written es = deco_cont q \<and> wire (ts_m_descr s) (os_trace es) = concat (deco_cont q)
    \<and> wr_wpc st' = W_While \<and> cw_m_queue_for_writing (wr_worker st') = Some q' \<and> deco_cont q' = []"
proof -
  have "writer_ready s st (deco_cont q)" using assms by (simp add: writer_ready_def source_ready_def)
  from writer_rounds [OF assms(4) this assms(8)] show ?thesis by (auto simp: writer_ready_def source_ready_def)
qed

theorem TCPSocketWorker_drains_witness:
  "\<exists>st st' es. writer_ready demo_socket st [[1, 2, 3]]
     \<and> run_writer tcp_source st [[], [], [], [Sent 3], []] = Inr (st', es) \<and> written es = [[1, 2, 3]]"
proof -
  obtain st where st: "writer_ready demo_socket st [[1, 2, 3]]"
    using demo_put_run [of "[1, 2, 3]"] by auto
  then obtain q where "wr_wpc st = W_While" "\<not> writer_leaves (wr_worker st)" "wr_source st = Some demo_socket"
    "SizedArray_size (wr_warr st) = connection_worker_arr_size"
    "cw_m_queue_for_writing (wr_worker st) = Some q" "deco_inv q" "deco_cont q = [[1, 2, 3]]"
    by (auto simp: writer_ready_def source_ready_def)
  moreover have "concat (map round_answers [[1, 2, 3]]) = [[], [], [], [Sent 3], []]"
    by (simp add: round_answers_def)
  ultimately show ?thesis
    using TCPSocketWorker_drains [of st demo_socket q] st demo_open by fastforce
qed

end
