(* ===== verification/Local_Transfer.thy ===== *)
theory Local_Transfer
  imports Unparsed_Stream Network_Transfer
begin

text \<open>
  Two local workers on a pair of \<open>AF_UNIX\<close> datagram sockets, as \<open>AbstractSubprocess\<close> and its parent use them.
  A socket of this kind keeps the boundaries of what is sent, so items travel as items. The requests of a
  worker to the kernel are related to what it has written by an invariant of its source; the
  same rule shows that a worker's requests are about its own descriptor only, so that the workers of a process do not
  disturb each other.
\<close>

subsection \<open>The datagrams of a local worker\<close>

fun datagrams :: "int \<Rightarrow> os_event list \<Rightarrow> bytes list" where
  "datagrams d [] = []"
| "datagrams d (Ev_Send d' bs # es) = (if d' = d then bs # datagrams d es else datagrams d es)"
| "datagrams d (_ # es) = datagrams d es"

lemma datagrams_append [simp]: "datagrams d (es @ fs) = datagrams d es @ datagrams d fs"
  by (induction es rule: datagrams.induct) simp_all

text \<open>The socket is the one the worker was started on, or has lost its descriptor.\<close>

definition local_wire :: "local_socket \<Rightarrow> local_socket option \<Rightarrow> os_event list \<Rightarrow> bytes list \<Rightarrow> bool" where
  "local_wire s os es ws \<longleftrightarrow> datagrams (ls_m_fd s) es = ws \<and> os \<in> {Some s, Some (s\<lparr>ls_m_fd := 0\<rparr>)}"

lemma local_read_wire:
  assumes "local_wire s os es ws" and "so_read local_source os buf ra = Inr (r, os', buf', es')"
  shows "local_wire s os' (es @ es') ws"
  using assms
  by (auto simp: local_wire_def local_source_def LocalSocketWorker_read_data_from_source_def LocalSocket_read_def
      Let_def rbind_eq_Inr split: if_splits recv_answer.splits)

lemma local_write_wire:
  assumes "ls_m_fd s \<noteq> 0" and "local_wire s os es ws" and "local_kernel os buf wa" and "sa_ok buf" and "sa_data buf \<noteq> []"
    and "so_write local_source os buf wa = Inr (r, os', buf', es')"
  shows "local_wire s os' (es @ es') (ws @ (if r > 0 then [sa_data buf] else []))"
  using assms length_sa_data [OF assms(4)] data_size_pos [OF assms(4,5)]
  by (auto simp: local_wire_def local_kernel_def local_source_def LocalSocketWorker_write_data_to_source_def
      LocalSocket_write_def rbind_eq_Inr split: if_splits send_answer.splits)

lemma local_worker_datagrams:
  assumes "worker_steps local_source local_kernel (worker_started w (Some s)) st tr"
    and "fresh_queue (cw_m_queue_for_writing w)" and "ls_m_fd s \<noteq> 0"
  shows "datagrams (ls_m_fd s) (os_trace tr) = written tr"
proof -
  have "local_wire s (wr_source (worker_started w (Some s))) [] []"
    by (simp add: local_wire_def worker_started_def)
  from lw.steps_source_inv [where P = "local_wire s", OF assms(1) started_writer_inv [OF assms(2)] this
      local_read_wire local_write_wire [OF assms(3)]]
  show ?thesis by (simp add: local_wire_def)
qed

subsection \<open>The requests of a worker are about its own descriptor\<close>

definition own_events :: "int \<Rightarrow> os_event list \<Rightarrow> bool" where
  "own_events d es \<longleftrightarrow> (\<forall>e \<in> set es. e = Ev_Close d \<or> (\<exists>bs. e = Ev_Send d bs))"

lemma own_events_simps [simp]:
  "own_events d []" "own_events d (es @ fs) \<longleftrightarrow> own_events d es \<and> own_events d fs"
  "own_events d (e # es) \<longleftrightarrow> (e = Ev_Close d \<or> (\<exists>bs. e = Ev_Send d bs)) \<and> own_events d es"
  by (auto simp: own_events_def)

lemma foreign_events:
  assumes "own_events d' es" and "d' \<noteq> d"
  shows "wire d es = []" and "closes d es = 0" and "datagrams d es = []"
  using assms by (induction es) (auto split: os_event.splits)

lemma shuffled_events:
  assumes "es \<in> shuffles es1 es2" and "own_events d2 es2" and "d2 \<noteq> d"
  shows "wire d es = wire d es1 \<and> closes d es = closes d es1 \<and> datagrams d es = datagrams d es1"
  using assms
proof (induction es1 es2 arbitrary: es rule: shuffles.induct)
  case (1 es2)
  then show ?case using foreign_events [of d2 es2 d] by auto
next
  case (3 x xs y ys)
  then obtain z zs where es: "es = z # zs" and z: "z = x \<and> zs \<in> shuffles xs (y # ys) \<or> z = y \<and> zs \<in> shuffles (x # xs) ys"
    by auto
  from z show ?case
  proof (elim disjE conjE)
    assume "z = x" "zs \<in> shuffles xs (y # ys)"
    with 3(1) [OF this(2) 3(4,5)] show ?thesis by (cases x) (simp_all add: es)
  next
    assume "z = y" "zs \<in> shuffles (x # xs) ys"
    with 3(2) [OF this(2) _ 3(5)] 3(4,5) show ?thesis by (auto simp: es)
  qed
qed simp

definition tcp_owner :: "int \<Rightarrow> tcp_socket option \<Rightarrow> os_event list \<Rightarrow> bytes list \<Rightarrow> bool" where
  "tcp_owner d os es ws \<longleftrightarrow> own_events d es \<and> (\<exists>s. os = Some s \<and> ts_m_descr s \<in> {d, -1})"

lemma close_owner:
  assumes "TCPSocket_close_descriptor s = (s', es)" and "ts_m_descr s \<in> {d, -1}"
  shows "own_events d es \<and> ts_m_descr s' \<in> {d, -1}"
  using assms by (auto simp: TCPSocket_close_descriptor_def op_defs Let_def split: if_splits)

lemma send_loop_owner:
  assumes "TCPSocket_send_loop s buf k as = Some (r, s', buf', es, as')" and "ts_m_descr s = d"
  shows "own_events d es \<and> ts_m_descr s' \<in> {d, -1}"
  using assms
  by (induction as arbitrary: k es)
    (auto split: if_splits send_answer.splits option.splits prod.splits dest!: close_owner [where d = d])

lemma tcp_read_owner:
  assumes "tcp_owner d os es ws" and "so_read tcp_source os buf ra = Inr (r, os', buf', es')"
  shows "tcp_owner d os' (es @ es') ws"
  using assms
  by (auto simp: tcp_owner_def tcp_source_def TCPSocketWorker_read_data_from_source_def TCPSocket_read_def
      Let_def rbind_eq_Inr op_defs split: if_splits recv_answer.splits prod.splits dest!: close_owner [where d = d])

lemma tcp_write_owner:
  assumes "tcp_owner d os es ws" and "so_write tcp_source os buf wa = Inr (r, os', buf', es')"
  shows "tcp_owner d os' (es @ es') ws'"
  using assms
  by (auto simp: tcp_owner_def tcp_source_def TCPSocketWorker_write_data_to_source_def TCPSocket_write_def
      Let_def op_defs split: if_splits option.splits dest!: send_loop_owner [where d = d])

lemma tcp_worker_owner:
  assumes "worker_steps tcp_source tcp_kernel (worker_started w (Some s)) st tr"
    and "fresh_queue (cw_m_queue_for_writing w)"
  shows "own_events (ts_m_descr s) (os_trace tr)"
proof -
  have "tcp_owner (ts_m_descr s) (wr_source (worker_started w (Some s))) [] []"
    by (simp add: tcp_owner_def worker_started_def)
  then have "tcp_owner (ts_m_descr s) (wr_source st) (os_trace tr) (written tr)"
    by (rule tw.steps_source_inv [OF assms(1) started_writer_inv [OF assms(2)]])
      (blast intro: tcp_read_owner tcp_write_owner)+
  then show ?thesis by (simp add: tcp_owner_def)
qed

subsection \<open>Concrete runs\<close>

lemma demo_local_write:
  assumes "length f < 65536" and "f \<noteq> []"
  shows "\<exists>st. worker_steps local_source local_kernel (worker_started demo_worker (Some demo_local)) st
      [E_Produced f, E_Os [Ev_Send 4 f], E_Written f]"
proof -
  have "so_write local_source (Some demo_local) arr (Sent (length f))
      = Inr (int (length f), Some demo_local, SizedArray_clear arr, [Ev_Send 4 f])
      \<and> local_kernel (Some demo_local) arr (Sent (length f))" if "sa_ok arr" "sa_data arr = f" for arr
    using that length_sa_data [OF that(1)]
    by (simp add: local_source_def LocalSocketWorker_write_data_to_source_def LocalSocket_write_def demo_local_def
        strcpy_sun_path_def c_str_def local_kernel_def)
  from demo_write [where ops = local_source and wok = local_kernel and wa = "Sent (length f)", OF assms this]
  show ?thesis by (auto simp: os_events_def)
qed

lemma demo_tcp_write:
  assumes "length f < 65536" and "f \<noteq> []" and "open_socket s"
  shows "\<exists>st. worker_steps tcp_source steady_kernel (worker_started demo_worker (Some s)) st
      [E_Produced f, E_Os [Ev_Send (ts_m_descr s) f], E_Written f]"
proof -
  have "so_write tcp_source (Some s) arr [Sent (length f)]
      = Inr (int (length f), Some s, SizedArray_clear arr, [Ev_Send (ts_m_descr s) f])
      \<and> steady_kernel (Some s) arr [Sent (length f)]" if "sa_ok arr" "sa_data arr = f" for arr
    by (rule source_write_whole [OF assms(3) that assms(2)])
  from demo_write [where ops = tcp_source and wok = steady_kernel and wa = "[Sent (length f)]", OF assms(1,2) this]
  show ?thesis by (auto simp: os_events_def)
qed

lemma demo_raw_read:
  assumes "bs \<noteq> []" and "length bs \<le> 65535"
  shows "\<exists>st. worker_steps local_source local_kernel (worker_started (demo_worker\<lparr>cw_m_parser := None\<rparr>) (Some demo_local)) st
      [E_Received bs]"
proof -
  let ?w = "demo_worker\<lparr>cw_m_parser := None\<rparr>"
  let ?st0 = "worker_started ?w (Some demo_local)"
  let ?st1 = "?st0\<lparr>wr_rpc := R_Read\<rparr>"
  have "\<not> reader_leaves ?w" using demo_worker_simps(7) by (simp add: reader_leaves_def)
  then have "thread_read_from_source local_source ?st0 (Received []) = Inr (?st1, [])"
    by (simp add: thread_read_from_source_def worker_started_def)
  from ws_reader [OF ws_start this] have 1: "worker_steps local_source local_kernel ?st0 ?st1 []" by simp
  let ?arr = "SizedArray_clear (wr_rarr ?st1)"
  have "length bs \<le> SizedArray_size ?arr"
    using assms(2) by (simp add: worker_started_def connection_worker_arr_size_def)
  from copy_then_resize [OF this] obtain arr where arr: "copy_to_front bs ?arr = Inr arr"
    "sa_data (SizedArray_resize arr (length bs)) = bs" by blast
  have "thread_read_from_source local_source ?st1 (Received bs)
      = Inr (?st1\<lparr>wr_rarr := SizedArray_resize arr (length bs), wr_rpc := R_Check (int (length bs))\<rparr>, [E_Received bs])"
    using arr assms by (simp add: thread_read_from_source_def worker_started_def local_source_def demo_local_def
        LocalSocketWorker_read_data_from_source_def LocalSocket_read_def LOCALSOCKET_ARRAY_SIZE_def Let_def)
  from ws_reader [OF 1 this] show ?thesis by auto
qed

subsection \<open>Properties\<close>

text \<open>
  C6. From the users of one process to the users of another over local sockets: two workers, each with
  its threads and users interleaved in any way, whatever the kernel of the sender answers, errors and requests to
  retry included. The kernel delivers the datagrams whole and in order. Without a parser, as the workers are built,
  every item the users of the receiver see is an item put in at the other end, whole, in order and at most once; items can
  be missing (see \<open>worker_without_parser\<close>). With the example's parser, and users that put in framed
  payloads, none is missing: they see a prefix of what was put in, and all of it once
  nothing is on the way.
\<close>

theorem local_workers_deliver:
  assumes "worker_steps local_source local_kernel (worker_started w1 (Some s1)) st1 tr1"
    and "fresh_queue (cw_m_queue_for_writing w1)" and "ls_m_fd s1 \<noteq> 0"
    and "chunks tr2 @ in_flight = datagrams (ls_m_fd s1) (os_trace tr1)"
    and "worker_steps local_source local_kernel (worker_started w2 s2) st2 tr2"
    and "fresh_queue (cw_m_queue_for_reading w2)"
  shows "\<exists>q1. cw_m_queue_for_writing (wr_worker st1) = Some q1
    \<and> (cw_m_parser w2 = None \<longrightarrow>
       (\<exists>q2. cw_m_queue_for_reading (wr_worker st2) = Some q2
          \<and> subseq (consumed tr2 @ deco_cont q2) (produced tr1)))
    \<and> (cw_m_parser w2 = Some (Obj_ParserExample ParserExample_ctor) \<and> (\<forall>d \<in> set ps. length d \<le> 65523)
         \<and> map (\<lambda>d. prepare_data_for_sending d (length d)) ps = map Inr (produced tr1) \<longrightarrow>
       (\<exists>q2 later. cw_m_queue_for_reading (wr_worker st2) = Some q2
          \<and> consumed tr2 @ deco_cont q2 @ later = produced tr1
          \<and> (deco_cont q1 = [] \<and> in_flight = [] \<and> wr_rpc st2 = R_Read \<longrightarrow> later = [])))"
proof -
  from lw.written_prefix [OF assms(1,2)] obtain q1 rest where
    q1: "cw_m_queue_for_writing (wr_worker st1) = Some q1" "deco_cont q1 = [] \<longrightarrow> rest = []"
    and sent_items: "written tr1 @ rest = produced tr1" by blast
  have all: "chunks tr2 @ in_flight @ rest = produced tr1"
    using assms(4) local_worker_datagrams [OF assms(1-3)] sent_items by (metis append.assoc)
  have raw: "\<exists>q2. cw_m_queue_for_reading (wr_worker st2) = Some q2
      \<and> subseq (consumed tr2 @ deco_cont q2) (produced tr1)" if "cw_m_parser w2 = None"
  proof -
    from lw.raw_worker_reads [OF assms(5,6) that] obtain q2 dn where
      q2: "cw_m_queue_for_reading (wr_worker st2) = Some q2" "chunks tr2 = dn @ held st2"
      "subseq (consumed tr2 @ deco_cont q2) dn" by blast
    then have "produced tr1 = dn @ held st2 @ in_flight @ rest" using all by simp
    with q2 show ?thesis by (metis list_emb_prefix)
  qed
  have framed: "\<exists>q2 later. cw_m_queue_for_reading (wr_worker st2) = Some q2
      \<and> consumed tr2 @ deco_cont q2 @ later = produced tr1
      \<and> (deco_cont q1 = [] \<and> in_flight = [] \<and> wr_rpc st2 = R_Read \<longrightarrow> later = [])"
    if parser: "cw_m_parser w2 = Some (Obj_ParserExample ParserExample_ctor)" and "\<forall>d \<in> set ps. length d \<le> 65523"
      and frames: "map (\<lambda>d. prepare_data_for_sending d (length d)) ps = map Inr (produced tr1)"
  proof -
    have "received tr2 @ concat (in_flight @ rest) = concat (produced tr1)"
      using all received_chunks [of tr2] by (metis concat_append)
    from lw.worker_delivers [OF assms(5,6) parser that(2) frames this] q1(2) show ?thesis by auto
  qed
  show ?thesis
  proof (rule exI [of _ q1], intro conjI impI)
    show "cw_m_queue_for_writing (wr_worker st1) = Some q1" by (rule q1(1))
  qed (erule raw, (elim conjE, rule framed; assumption))
qed

text \<open>One item sent, and read at the other end.\<close>

lemma local_workers_deliver_witness:
  "\<exists>tr1 tr2 st1 st2 q2. worker_steps local_source local_kernel (worker_started demo_worker (Some demo_local)) st1 tr1
     \<and> produced tr1 = [[9, 8]] \<and> worker_steps local_source local_kernel
         (worker_started (demo_worker\<lparr>cw_m_parser := None\<rparr>) (Some demo_local)) st2 tr2 \<and> chunks tr2 = [[9, 8]]
     \<and> cw_m_queue_for_reading (wr_worker st2) = Some q2 \<and> subseq (consumed tr2 @ deco_cont q2) [[9, 8]]"
proof -
  let ?tr1 = "[E_Produced [9, 8], E_Os [Ev_Send 4 [9, 8]], E_Written [9, 8]]"
  let ?w = "demo_worker\<lparr>cw_m_parser := None\<rparr>"
  obtain st1 where st1: "worker_steps local_source local_kernel (worker_started demo_worker (Some demo_local)) st1 ?tr1"
    using demo_local_write [of "[9, 8]"] by auto
  obtain st2 where st2: "worker_steps local_source local_kernel (worker_started ?w (Some demo_local)) st2 [E_Received [9, 8]]"
    using demo_raw_read [of "[9, 8]"] by auto
  have tr1: "produced ?tr1 = [[9, 8]]" "datagrams 4 (os_trace ?tr1) = [[9, 8]]" by (simp_all add: trace_defs)
  have fd: "ls_m_fd demo_local \<noteq> 0" "ls_m_fd demo_local = 4" by (simp_all add: demo_local_def)
  have tr2: "chunks [E_Received [9, 8]] @ [] = datagrams (ls_m_fd demo_local) (os_trace ?tr1)"
    by (simp add: tr1(2) fd(2))
  have "fresh_queue (cw_m_queue_for_reading ?w)" using demo_worker_simps(1) by simp
  from local_workers_deliver [OF st1 demo_worker_simps(2) fd(1) tr2 st2 this, of "[]"]
  obtain q2 where "cw_m_queue_for_reading (wr_worker st2) = Some q2"
    "subseq (consumed [E_Received [9, 8]] @ deco_cont q2) [[9, 8]]" by (auto simp: tr1(1))
  moreover have "chunks [E_Received [9, 8]] = [[9, 8]]" by simp
  ultimately show ?thesis using st1 st2 tr1(1) by blast
qed

text \<open>
  Workers of one process do not disturb each other: two TCP workers on different descriptors, for
  example two clients of one server, each in any interleaving of its threads and users, and their requests
  reaching the kernel in any order. The bytes on each connection are those its own worker sent, in their
  order, nobody else closes its descriptor, and no request is about a descriptor that belongs to neither. (The calls of a socket
  are atomic here; \<open>racing_threads_close_twice\<close> is about what happens inside them when a connection ends.)
\<close>

theorem workers_isolated:
  assumes "worker_steps tcp_source tcp_kernel (worker_started w1 (Some s1)) st1 tr1"
    and "worker_steps tcp_source tcp_kernel (worker_started w2 (Some s2)) st2 tr2"
    and "fresh_queue (cw_m_queue_for_writing w1)" and "fresh_queue (cw_m_queue_for_writing w2)"
    and "ts_m_descr s1 \<noteq> ts_m_descr s2" and "es \<in> shuffles (os_trace tr1) (os_trace tr2)"
  shows "wire (ts_m_descr s1) es = wire (ts_m_descr s1) (os_trace tr1)
    \<and> closes (ts_m_descr s1) es = closes (ts_m_descr s1) (os_trace tr1)
    \<and> wire (ts_m_descr s2) es = wire (ts_m_descr s2) (os_trace tr2)
    \<and> closes (ts_m_descr s2) es = closes (ts_m_descr s2) (os_trace tr2)
    \<and> (\<forall>d. d \<noteq> ts_m_descr s1 \<and> d \<noteq> ts_m_descr s2 \<longrightarrow> wire d es = [] \<and> closes d es = 0)"
proof -
  have own: "own_events (ts_m_descr s1) (os_trace tr1)" "own_events (ts_m_descr s2) (os_trace tr2)"
    using tcp_worker_owner assms(1-4) by blast+
  have sym: "es \<in> shuffles (os_trace tr2) (os_trace tr1)" using assms(6) by (simp add: shuffles_commutes)
  have "wire d es = [] \<and> closes d es = 0" if "d \<noteq> ts_m_descr s1" "d \<noteq> ts_m_descr s2" for d
    using shuffled_events [OF assms(6) own(2), of d] foreign_events [OF own(1), of d] that by auto
  with shuffled_events [OF assms(6) own(2)] shuffled_events [OF sym own(1)] assms(5) show ?thesis by auto
qed

lemma workers_isolated_witness:
  "\<exists>tr1 tr2 st1 st2. worker_steps tcp_source tcp_kernel (worker_started demo_worker (Some demo_socket)) st1 tr1
     \<and> worker_steps tcp_source tcp_kernel (worker_started demo_worker (Some (demo_socket\<lparr>ts_m_descr := 6\<rparr>))) st2 tr2
     \<and> [Ev_Send 6 [2], Ev_Send 5 [1]] \<in> shuffles (os_trace tr1) (os_trace tr2)
     \<and> wire 5 (os_trace tr1) = [1] \<and> wire 6 (os_trace tr2) = [2]"
proof -
  let ?s2 = "demo_socket\<lparr>ts_m_descr := 6\<rparr>" and ?es = "[Ev_Send 6 [2], Ev_Send 5 [1]]"
  let ?tr1 = "[E_Produced [1], E_Os [Ev_Send 5 [1]], E_Written [1]]"
  let ?tr2 = "[E_Produced [2], E_Os [Ev_Send 6 [2]], E_Written [2]]"
  obtain st1 where st1: "worker_steps tcp_source tcp_kernel (worker_started demo_worker (Some demo_socket)) st1 ?tr1"
    using demo_tcp_write [of "[1]" demo_socket] worker_steps_mono [OF _ steady_is_tcp] by fastforce
  obtain st2 where st2: "worker_steps tcp_source tcp_kernel (worker_started demo_worker (Some ?s2)) st2 ?tr2"
    using demo_tcp_write [of "[2]" ?s2] worker_steps_mono [OF _ steady_is_tcp] by (fastforce simp: open_socket_def)
  have tr: "os_trace ?tr1 = [Ev_Send 5 [1]]" "os_trace ?tr2 = [Ev_Send 6 [2]]" by (simp_all add: trace_defs)
  then have sh: "?es \<in> shuffles (os_trace ?tr1) (os_trace ?tr2)" by simp
  from workers_isolated [OF st1 st2 demo_worker_simps(2,2) _ this] have
    "wire 5 (os_trace ?tr1) = [1]" "wire 6 (os_trace ?tr2) = [2]" by simp_all
  with st1 st2 sh show ?thesis by blast
qed

end
