(* ===== verification/Tcp_Server.thy ===== *)
theory Tcp_Server
  imports Tcp_Socket
begin

text \<open>
  \<open>connections/network/TCPServer.h\<close> and \<open>.cpp\<close>: the listening socket, the three accept threads and the
  hand-over of accepted sockets to the callback. The callback is the user's code: the sockets given
  to it are listed in the result. \<open>m_atomic_server_enable\<close> is written by other threads, so every
  round of an accept thread carries the values it reads. The sleeps of the destructor, the console
  messages and the descriptor of the epoll instance are left out.
\<close>

datatype NetServerStatus =
  TCPSERVER_OK | TCPSERVER_SOCKET_ERROR | TCPSERVER_SETSOCKOPT_ERROR | TCPSERVER_BIND_ERROR
  | TCPSERVER_LISTEN_ERROR | TCPSERVER_ACCEPT_ERROR | TCPSERVER_SLAVESOCKET_ERROR

datatype NetServerListenType = TCPSERVER_BLOCKED | TCPSERVER_UNBLOCKED | TCPSERVER_TIMED

record tcp_server =
  sv_m_master_socket :: int
  sv_m_status :: NetServerStatus
  sv_m_atomic_server_enable :: bool
  sv_m_atomic_server_finished :: bool
  sv_m_accepted_callback :: socket_callback

definition MAX_PENDING_CONNECTIONS :: nat where
  "MAX_PENDING_CONNECTIONS = 32"

definition TCP_SERVER_RCVBUF_SIZE :: u32 where
  "TCP_SERVER_RCVBUF_SIZE = 65536"

definition TCP_SERVER_SNDBUF_SIZE :: u32 where
  "TCP_SERVER_SNDBUF_SIZE = 65536"

definition TCP_SERVER_RCV_TIMEOUT_MSEC :: nat where
  "TCP_SERVER_RCV_TIMEOUT_MSEC = 1000"

definition TCP_SERVER_SND_TIMEOUT_MSEC :: nat where
  "TCP_SERVER_SND_TIMEOUT_MSEC = 1000"

definition TCPServer_ctor :: tcp_server where
  "TCPServer_ctor = \<lparr>sv_m_master_socket = -1, sv_m_status = TCPSERVER_OK,
     sv_m_atomic_server_enable = True, sv_m_atomic_server_finished = True,
     sv_m_accepted_callback = Default_callback\<rparr>"

definition TCPServer_set_accepted_callback :: "socket_callback \<Rightarrow> tcp_server \<Rightarrow> tcp_server" where
  "TCPServer_set_accepted_callback cb sv = sv\<lparr>sv_m_accepted_callback := cb\<rparr>"

definition TCPServer_status :: "tcp_server \<Rightarrow> NetServerStatus" where
  "TCPServer_status s = sv_m_status s"

definition TCPServer_get_descriptor :: "tcp_server \<Rightarrow> int" where
  "TCPServer_get_descriptor s = sv_m_master_socket s"

definition TCPServer_stop :: "tcp_server \<Rightarrow> tcp_server" where
  "TCPServer_stop sv = sv\<lparr>sv_m_atomic_server_enable := False\<rparr>"

definition TCPServer_reset_status :: "tcp_server \<Rightarrow> tcp_server" where
  "TCPServer_reset_status sv = sv\<lparr>sv_m_status := TCPSERVER_OK\<rparr>"

subsection \<open>Listening\<close>

text \<open>What the kernel answers to \<open>socket\<close>, \<open>setsockopt\<close>, \<open>bind\<close> and \<open>listen\<close>.\<close>

record listen_answers =
  la_socket :: int
  la_option :: option_answers
  la_bind :: int
  la_listen :: int

text \<open>
  \<open>start_listen\<close>: its value, the server, the events, and the accept thread it detaches. Port and
  address of \<open>Ev_Bind\<close> are in network byte order; \<open>INADDR_ANY\<close> is 0.
\<close>

definition TCPServer_start_listen ::
  "tcp_server \<Rightarrow> u16 \<Rightarrow> NetServerListenType \<Rightarrow> listen_answers
    \<Rightarrow> int \<times> tcp_server \<times> os_event list \<times> NetServerListenType option" where
  "TCPServer_start_listen sv0 listen_port listen_type ans =
     (let sv1 = TCPServer_reset_status sv0;
          es1 = (if sv_m_master_socket sv1 > 0 then [Ev_Close (sv_m_master_socket sv1), Ev_Sleep 300] else []);
          sv2 = sv1\<lparr>sv_m_master_socket := la_socket ans\<rparr>;
          m = sv_m_master_socket sv2
      in if m = -1 then (-1, sv2\<lparr>sv_m_status := TCPSERVER_SOCKET_ERROR\<rparr>, es1, None)
         else
           let es2 = es1 @ [Ev_Socket m, Ev_Set_Option m (SOL_SOCKET, SO_REUSEADDR, Opt_int 1)]
           in if la_option ans SO_REUSEADDR = -1
              then (-2, sv2\<lparr>sv_m_status := TCPSERVER_SETSOCKOPT_ERROR\<rparr>, es2, None)
              else
                let es3 = es2 @ [Ev_Bind m (htons listen_port) 0]
                in if la_bind ans = -1
                   then (-3, sv2\<lparr>sv_m_master_socket := -1, sv_m_status := TCPSERVER_BIND_ERROR\<rparr>,
                         es3 @ [Ev_Close m], None)
                   else
                     let es4 = es3 @ [Ev_Set_Option m (SOL_SOCKET, SO_RCVBUF, Opt_int TCP_SERVER_RCVBUF_SIZE),
                                      Ev_Set_Option m (SOL_SOCKET, SO_SNDBUF, Opt_int TCP_SERVER_SNDBUF_SIZE),
                                      Ev_Listen m MAX_PENDING_CONNECTIONS]
                     in if la_listen ans = -1
                        then (-4, sv2\<lparr>sv_m_status := TCPSERVER_LISTEN_ERROR, sv_m_master_socket := -1\<rparr>,
                              es4 @ [Ev_Close m], None)
                        else (0, sv2, es4, Some listen_type))"

definition TCPServer_start ::
  "tcp_server \<Rightarrow> u16 \<Rightarrow> NetServerListenType \<Rightarrow> listen_answers
    \<Rightarrow> tcp_server \<times> os_event list \<times> NetServerListenType option" where
  "TCPServer_start sv listen_port listen_type ans =
     (let sv1 = sv\<lparr>sv_m_atomic_server_enable := True, sv_m_atomic_server_finished := False\<rparr>
      in case TCPServer_start_listen sv1 listen_port listen_type ans of
           (status, sv2, es, thread) \<Rightarrow>
             if status < 0
             then (sv2\<lparr>sv_m_atomic_server_finished := True, sv_m_atomic_server_enable := False\<rparr>, es, thread)
             else (sv2, es, thread))"

text \<open>The destructor up to its wait for the accept thread.\<close>

definition TCPServer_dtor :: "tcp_server \<Rightarrow> tcp_server \<times> os_event list" where
  "TCPServer_dtor sv =
     (let sv1 = sv\<lparr>sv_m_atomic_server_enable := False\<rparr>;
          es = (if sv_m_master_socket sv1 \<ge> 0 then [Ev_Close (sv_m_master_socket sv1)] else [])
      in (sv1\<lparr>sv_m_master_socket := -1\<rparr>, es))"

text \<open>The answer \<open>-1\<close> of \<open>F_GETFL\<close> is read as no flags.\<close>

definition O_NONBLOCK :: u32 where
  "O_NONBLOCK = 2048"

definition TCPServer_set_non_block :: "int \<Rightarrow> int \<Rightarrow> os_event list" where
  "TCPServer_set_non_block s getfl_ans =
     (let flags = (if getfl_ans = -1 then 0 else word_of_int getfl_ans)
      in [Ev_Set_Flags s (or flags O_NONBLOCK)])"

subsection \<open>Handing over an accepted socket\<close>

definition server_flags :: "opt_triple list" where
  "server_flags =
     [(SOL_SOCKET, SO_KEEPALIVE, Opt_int 1), (SOL_TCP, TCP_KEEPIDLE, Opt_int 2),
      (SOL_TCP, TCP_KEEPCNT, Opt_int 3), (SOL_TCP, TCP_KEEPINTVL, Opt_int 4),
      (SOL_TCP, TCP_USER_TIMEOUT, Opt_int 4000), (SOL_TCP, TCP_NODELAY, Opt_int 1),
      (SOL_TCP, TCP_QUICKACK, Opt_int 1)]"

definition TCPServer_set_client_socket_flags ::
  "tcp_server \<Rightarrow> int \<Rightarrow> option_answers \<Rightarrow> int \<times> tcp_server \<times> os_event list" where
  "TCPServer_set_client_socket_flags sv s ans =
     (case set_options s server_flags ans of
        (False, es) \<Rightarrow> (-1, sv\<lparr>sv_m_status := TCPSERVER_SETSOCKOPT_ERROR\<rparr>, es)
      | (True, es) \<Rightarrow>
          let read_delay = Opt_timeval (TCP_SERVER_RCV_TIMEOUT_MSEC div 1000) (TCP_SERVER_RCV_TIMEOUT_MSEC mod 1000);
              write_delay = Opt_timeval (TCP_SERVER_SND_TIMEOUT_MSEC div 1000) (TCP_SERVER_SND_TIMEOUT_MSEC mod 1000);
              es1 = es @ [Ev_Set_Option s (SOL_SOCKET, SO_RCVTIMEO, read_delay)]
          in if ans SO_RCVTIMEO < 0 then (-1, sv\<lparr>sv_m_status := TCPSERVER_SETSOCKOPT_ERROR\<rparr>, es1)
             else
               let es2 = es1 @ [Ev_Set_Option s (SOL_SOCKET, SO_SNDTIMEO, read_delay)]
               in if ans SO_SNDTIMEO < 0 then (-1, sv\<lparr>sv_m_status := TCPSERVER_SETSOCKOPT_ERROR\<rparr>, es2)
                  else (0, sv, es2))"

text \<open>The answers to an accepted connection: \<open>setsockopt\<close> and the \<open>getpeername\<close> of the constructor.\<close>

record accept_answer =
  aa_slave :: int
  aa_options :: option_answers
  aa_peer :: "sockaddr_in option"

definition accept_event :: "accept_answer \<Rightarrow> os_event list" where
  "accept_event a = (if aa_slave a = -1 then [] else [Ev_Accept (aa_slave a)])"

definition TCPServer_call_accepted_callback_function ::
  "tcp_server \<Rightarrow> accept_answer \<Rightarrow> tcp_server \<times> os_event list \<times> tcp_socket list" where
  "TCPServer_call_accepted_callback_function sv a =
     (if aa_slave a \<le> 0 then (sv, [], [])
      else case TCPServer_set_client_socket_flags sv (aa_slave a) (aa_options a) of
             (status, sv1, es) \<Rightarrow> (sv1, es, [TCPSocket_ctor (aa_slave a) (aa_peer a)]))"

text \<open>
  The callback runs on each socket of the list. The default one prints a message and destroys the
  \<open>unique_ptr\<close> it was given; the sockets that reach the user's code are the first component of the result.
\<close>

definition TCPServer_default_accepted_callback :: "tcp_socket \<Rightarrow> os_event list" where
  "TCPServer_default_accepted_callback s = snd (TCPSocket_dtor s)"

definition TCPServer_accepted_callback :: "tcp_server \<Rightarrow> tcp_socket list \<Rightarrow> tcp_socket list \<times> os_event list" where
  "TCPServer_accepted_callback sv ss =
     (case sv_m_accepted_callback sv of
        User_callback \<Rightarrow> (ss, [])
      | Default_callback \<Rightarrow> ([], concat (map TCPServer_default_accepted_callback ss)))"

subsection \<open>The accept threads\<close>

text \<open>
  A round of \<open>epoll_loop\<close>: the two values read from \<open>m_atomic_server_enable\<close>, the descriptors
  \<open>epoll_wait\<close> stored (\<open>None\<close> when it returned \<open>-1\<close>), and the answers to the calls of \<open>accept\<close>.
  An entry of \<open>Events\<close> that was not stored is not initialised, and reading it is a fault.
\<close>

record epoll_round =
  er_enabled :: bool
  er_wait :: "int list option"
  er_enabled_after :: bool
  er_accepts :: "accept_answer list"

definition event_at :: "int list option \<Rightarrow> nat \<Rightarrow> int result" where
  "event_at w i = (case w of None \<Rightarrow> Inl Bad_Memory
     | Some fds \<Rightarrow> if i < length fds then Inr (fds ! i) else Inl Bad_Memory)"

text \<open>The bound of the inner loop: \<open>N\<close> is compared with the unsigned \<open>i\<close>.\<close>

definition epoll_bound :: "int list option \<Rightarrow> nat" where
  "epoll_bound w =
     (let N = (case w of None \<Rightarrow> -1 | Some fds \<Rightarrow> int (length fds)) in unat (word_of_int N :: u32))"

function epoll_events ::
  "tcp_server \<Rightarrow> int list option \<Rightarrow> nat \<Rightarrow> accept_answer list
    \<Rightarrow> (tcp_server \<times> os_event list \<times> tcp_socket list) result" where
  "epoll_events sv w i as =
     (if i < epoll_bound w
      then rbind (event_at w i) (\<lambda>fd.
        if fd = sv_m_master_socket sv
        then (case as of [] \<Rightarrow> Inl Blocked
              | a # as' \<Rightarrow>
                  (case TCPServer_call_accepted_callback_function sv a of (sv1, es1, ss1) \<Rightarrow>
                     rbind (epoll_events sv1 w (i + 1) as') (\<lambda>(sv2, es2, ss2).
                       Inr (sv2, accept_event a @ es1 @ es2, ss1 @ ss2))))
        else epoll_events sv w (i + 1) as)
      else Inr (sv, [], []))"
  by pat_completeness auto
termination by (relation "measure (\<lambda>(sv, w, i, as). epoll_bound w - i)") auto

declare epoll_events.simps [simp del]

fun TCPServer_epoll_loop ::
  "tcp_server \<Rightarrow> epoll_round list \<Rightarrow> (tcp_server \<times> os_event list \<times> tcp_socket list) result" where
  "TCPServer_epoll_loop sv [] = Inl Blocked"
| "TCPServer_epoll_loop sv (r # rs) =
     (if \<not> er_enabled r
      then Inr (sv\<lparr>sv_m_atomic_server_enable := False, sv_m_atomic_server_finished := True\<rparr>, [], [])
      else if \<not> er_enabled_after r
      then Inr (sv\<lparr>sv_m_atomic_server_enable := False, sv_m_atomic_server_finished := True\<rparr>, [], [])
      else rbind (epoll_events sv (er_wait r) 0 (er_accepts r)) (\<lambda>(sv1, es1, ss1).
        rbind (TCPServer_epoll_loop sv1 rs) (\<lambda>(sv2, es2, ss2). Inr (sv2, es1 @ es2, ss1 @ ss2))))"

text \<open>
  A round of the non-blocking thread: the value read from \<open>m_atomic_server_enable\<close>, the answer of
  \<open>accept\<close>, the error number it sets when it returns \<open>-1\<close>, and the error number the callback leaves.
  A call that succeeds leaves \<open>errno\<close> as it is.
\<close>

record nb_round =
  nb_enabled :: bool
  nb_answer :: accept_answer
  nb_errno :: errno
  nb_errno_after :: "errno option"

fun TCPServer_thread_unblocked_accept ::
  "tcp_server \<Rightarrow> errno option \<Rightarrow> nb_round list \<Rightarrow> (tcp_server \<times> os_event list \<times> tcp_socket list) result" where
  "TCPServer_thread_unblocked_accept sv e [] = Inl Blocked"
| "TCPServer_thread_unblocked_accept sv e (r # rs) =
     (if \<not> nb_enabled r
      then Inr (sv\<lparr>sv_m_atomic_server_enable := False, sv_m_atomic_server_finished := True\<rparr>, [], [])
      else if sv_m_master_socket sv \<le> 0 then TCPServer_thread_unblocked_accept sv e rs
      else
        let slave = aa_slave (nb_answer r);
            e1 = (if slave = -1 then Some (nb_errno r) else e);
            acc = accept_event (nb_answer r)
        in if e1 = Some EAGAIN \<or> e1 = Some EWOULDBLOCK
           then rbind (TCPServer_thread_unblocked_accept sv e1 rs) (\<lambda>(sv2, es2, ss2).
                  Inr (sv2, acc @ Ev_Sleep 10 # es2, ss2))
           else if slave = -1 then Inr (sv\<lparr>sv_m_atomic_server_finished := True\<rparr>, [], [])
           else case TCPServer_call_accepted_callback_function sv (nb_answer r) of (sv1, es1, ss1) \<Rightarrow>
                  rbind (TCPServer_thread_unblocked_accept sv1 (nb_errno_after r) rs) (\<lambda>(sv2, es2, ss2).
                    Inr (sv2, acc @ es1 @ es2, ss1 @ ss2)))"

fun TCPServer_get_status_string :: "NetServerStatus \<Rightarrow> string" where
  "TCPServer_get_status_string TCPSERVER_OK = ''TCPServer status OK''"
| "TCPServer_get_status_string TCPSERVER_SOCKET_ERROR = ''TCPServer Socket error''"
| "TCPServer_get_status_string TCPSERVER_SETSOCKOPT_ERROR = ''TCPServer Setsockopt error''"
| "TCPServer_get_status_string TCPSERVER_BIND_ERROR = ''TCPServer bind error''"
| "TCPServer_get_status_string TCPSERVER_LISTEN_ERROR = ''TCPServer listen error''"
| "TCPServer_get_status_string TCPSERVER_ACCEPT_ERROR = ''TCPServer accept error''"
| "TCPServer_get_status_string TCPSERVER_SLAVESOCKET_ERROR = ''TCPServer slavesocket error''"


subsection \<open>The life of a server\<close>

text \<open>
  The states of a server and all events so far, for any sequence of starts and stops; the kernel's
  descriptors are positive.
\<close>

inductive server_reach :: "tcp_server \<Rightarrow> os_event list \<Rightarrow> bool" where
  server_new: "server_reach TCPServer_ctor []"
| server_start: "server_reach sv es \<Longrightarrow> la_socket ans = -1 \<or> la_socket ans > 0 \<Longrightarrow>
    TCPServer_start sv p lt ans = (sv', es', th) \<Longrightarrow> server_reach sv' (es @ es')"
| server_stop: "server_reach sv es \<Longrightarrow> server_reach (TCPServer_stop sv) es"


definition holds_master :: "tcp_server \<Rightarrow> os_event list \<Rightarrow> bool" where
  "holds_master sv es \<longleftrightarrow> (sv_m_master_socket sv = -1 \<or> sv_m_master_socket sv > 0)
     \<and> (\<forall>d > 0. opens d es = closes d es + (if sv_m_master_socket sv = d then 1 else 0))"

lemma start_holds_master:
  assumes "holds_master sv es" and "la_socket ans = -1 \<or> la_socket ans > 0"
    and "TCPServer_start sv p lt ans = (sv', es', th)"
  shows "holds_master sv' (es @ es')"
  using assms
  by (auto simp: holds_master_def TCPServer_start_def TCPServer_start_listen_def TCPServer_reset_status_def
      Let_def split: if_splits prod.splits)

lemma server_reach_holds_master: "server_reach sv es \<Longrightarrow> holds_master sv es"
proof (induction rule: server_reach.induct)
  case server_new
  then show ?case by (simp add: holds_master_def TCPServer_ctor_def)
next
  case (server_start sv es ans p lt sv' es' th)
  then show ?case using start_holds_master by blast
next
  case (server_stop sv es)
  then show ?case by (simp add: holds_master_def TCPServer_stop_def)
qed

subsection \<open>The accept threads\<close>

lemma callback_spec:
  assumes "TCPServer_call_accepted_callback_function sv a = (sv', es, ss)"
  shows "sv_m_master_socket sv' = sv_m_master_socket sv"
    and "sv_m_atomic_server_enable sv' = sv_m_atomic_server_enable sv"
    and "ss = (if aa_slave a > 0 then [TCPSocket_ctor (aa_slave a) (aa_peer a)] else [])"
    and "closes d es = 0" and "accepts d es = 0"
  using assms
  by (auto simp: TCPServer_call_accepted_callback_function_def TCPServer_set_client_socket_flags_def Let_def
      split: if_splits prod.splits bool.splits)

text \<open>The sockets that a list of answers to \<open>accept\<close> leads to.\<close>

definition sockets_of :: "accept_answer list \<Rightarrow> tcp_socket list" where
  "sockets_of as =
     map (\<lambda>a. TCPSocket_ctor (aa_slave a) (aa_peer a)) (filter (\<lambda>a. aa_slave a > 0) as)"

lemma sockets_of_simps [simp]:
  "sockets_of [] = []" "sockets_of (as @ bs) = sockets_of as @ sockets_of bs"
  "sockets_of (a # as) = (if aa_slave a > 0 then [TCPSocket_ctor (aa_slave a) (aa_peer a)] else []) @ sockets_of as"
  by (simp_all add: sockets_of_def)

lemma epoll_bound_Some: "length fds < 2 ^ 32 \<Longrightarrow> epoll_bound (Some fds) = length fds"
  by (simp add: epoll_bound_def unat_of_nat)

lemma epoll_bound_None [simp]: "epoll_bound None = 2 ^ 32 - 1"
  by (simp add: epoll_bound_def, transfer, simp add: take_bit_minus_one_eq_mask mask_eq_exp_minus_1)

lemma epoll_events_ready:
  assumes "length fds < 2 ^ 32" and "\<forall>fd \<in> set fds. fd = sv_m_master_socket sv" and "i + length as = length fds"
  shows "\<exists>sv' es. epoll_events sv (Some fds) i as = Inr (sv', es, sockets_of as)
    \<and> sv_m_master_socket sv' = sv_m_master_socket sv"
  using assms
proof (induction as arbitrary: sv i)
  case Nil
  then show ?case by (subst epoll_events.simps) (simp add: epoll_bound_Some)
next
  case (Cons a as)
  obtain sv1 es1 ss1 where cb: "TCPServer_call_accepted_callback_function sv a = (sv1, es1, ss1)"
    by (rule prod_cases3)
  have m: "sv_m_master_socket sv1 = sv_m_master_socket sv" by (rule callback_spec(1) [OF cb])
  from Cons.prems have "fds ! i = sv_m_master_socket sv" by simp
  moreover obtain sv2 es2 where "epoll_events sv1 (Some fds) (i + 1) as = Inr (sv2, es2, sockets_of as)"
      "sv_m_master_socket sv2 = sv_m_master_socket sv1"
    using Cons.IH [of sv1 "i + 1"] Cons.prems m by auto
  ultimately show ?case
    using Cons.prems cb m callback_spec(3) [OF cb]
    by (subst epoll_events.simps) (simp add: epoll_bound_Some event_at_def)
qed

text \<open>A round in which connections are waiting on the master socket, or the wait timed out.\<close>

definition ready_round :: "int \<Rightarrow> epoll_round \<Rightarrow> bool" where
  "ready_round m r \<longleftrightarrow> er_enabled r \<and> er_enabled_after r
     \<and> er_wait r = Some (replicate (length (er_accepts r)) m) \<and> length (er_accepts r) \<le> 32"

lemma epoll_loop_ready:
  assumes "list_all (ready_round (sv_m_master_socket sv)) rs"
  shows "\<exists>sv' es. sv_m_master_socket sv' = sv_m_master_socket sv
    \<and> TCPServer_epoll_loop sv (rs @ rest) = rbind (TCPServer_epoll_loop sv' rest)
        (\<lambda>(sv2, es2, ss2). Inr (sv2, es @ es2, sockets_of (concat (map er_accepts rs)) @ ss2))"
  using assms
proof (induction rs arbitrary: sv)
  case Nil
  have "rbind (TCPServer_epoll_loop sv rest) (\<lambda>(sv2, es2, ss2). Inr (sv2, [] @ es2, [] @ ss2)) = TCPServer_epoll_loop sv rest"
    by (cases "TCPServer_epoll_loop sv rest") auto
  then show ?case by (metis append_Nil concat.simps(1) list.map(1) sockets_of_simps(1))
next
  case (Cons r rs)
  then have r: "ready_round (sv_m_master_socket sv) r" by simp
  obtain sv1 es1 where ev: "epoll_events sv (er_wait r) 0 (er_accepts r) = Inr (sv1, es1, sockets_of (er_accepts r))"
    and m: "sv_m_master_socket sv1 = sv_m_master_socket sv"
    using epoll_events_ready [of "replicate (length (er_accepts r)) (sv_m_master_socket sv)" sv 0 "er_accepts r"] r
    by (auto simp: ready_round_def)
  obtain sv2 es2 where "sv_m_master_socket sv2 = sv_m_master_socket sv1"
    "TCPServer_epoll_loop sv1 (rs @ rest) = rbind (TCPServer_epoll_loop sv2 rest)
        (\<lambda>(sv2, es2', ss2). Inr (sv2, es2 @ es2', sockets_of (concat (map er_accepts rs)) @ ss2))"
    using Cons.IH [of sv1] Cons.prems m by auto
  then show ?case
    using r ev m
    by (intro exI [of _ sv2] exI [of _ "es1 @ es2"])
      (auto simp: ready_round_def rbind_assoc split: prod.splits intro!: rbind_cong)
qed

text \<open>Once \<open>errno\<close> is \<open>EAGAIN\<close>, a call of \<open>accept\<close> that succeeds is taken for one that failed.\<close>

definition stays_EAGAIN :: "nb_round \<Rightarrow> bool" where
  "stays_EAGAIN r \<longleftrightarrow> nb_enabled r \<and> (aa_slave (nb_answer r) = -1 \<longrightarrow> nb_errno r = EAGAIN)"

lemma stale_errno:
  assumes "sv_m_master_socket sv > 0" and "list_all stays_EAGAIN rs" and "\<not> nb_enabled stop"
  shows "\<exists>sv' es. TCPServer_thread_unblocked_accept sv (Some EAGAIN) (rs @ [stop]) = Inr (sv', es, [])
    \<and> (\<forall>d > 0. accepts d es = count_list (map (\<lambda>r. aa_slave (nb_answer r)) rs) d \<and> closes d es = 0)"
  using assms(2)
proof (induction rs)
  case Nil
  then show ?case using assms(3) by simp
next
  case (Cons r rs)
  then obtain sv' es where "TCPServer_thread_unblocked_accept sv (Some EAGAIN) (rs @ [stop]) = Inr (sv', es, [])"
      "\<forall>d > 0. accepts d es = count_list (map (\<lambda>r. aa_slave (nb_answer r)) rs) d \<and> closes d es = 0"
    by auto
  with Cons.prems assms(1) show ?case
    by (auto simp: stays_EAGAIN_def accept_event_def Let_def)
qed

definition good_round :: "nb_round \<Rightarrow> bool" where
  "good_round r \<longleftrightarrow> nb_enabled r \<and> aa_slave (nb_answer r) > 0 \<and> nb_errno_after r \<noteq> Some EAGAIN"

lemma unblocked_good_rounds:
  assumes "sv_m_master_socket sv > 0" and "list_all good_round rs" and "e \<noteq> Some EAGAIN"
  shows "\<exists>sv' e' es. sv_m_master_socket sv' = sv_m_master_socket sv \<and> (\<forall>d. closes d es = 0)
    \<and> TCPServer_thread_unblocked_accept sv e (rs @ rest) =
        rbind (TCPServer_thread_unblocked_accept sv' e' rest)
          (\<lambda>(sv2, es2, ss2). Inr (sv2, es @ es2, sockets_of (map nb_answer rs) @ ss2))"
  using assms
proof (induction rs arbitrary: sv e)
  case Nil
  have "rbind (TCPServer_thread_unblocked_accept sv e rest) (\<lambda>(sv2, es2, ss2). Inr (sv2, [] @ es2, [] @ ss2))
      = TCPServer_thread_unblocked_accept sv e rest"
    by (cases "TCPServer_thread_unblocked_accept sv e rest") auto
  then show ?case
    by (intro exI [of _ sv] exI [of _ e] exI [of _ "[]"]) simp
next
  case (Cons r rs)
  obtain sv1 es1 ss1 where cb: "TCPServer_call_accepted_callback_function sv (nb_answer r) = (sv1, es1, ss1)"
    by (rule prod_cases3)
  have m: "sv_m_master_socket sv1 = sv_m_master_socket sv" by (rule callback_spec(1) [OF cb])
  obtain sv2 e2 es2 where ih: "sv_m_master_socket sv2 = sv_m_master_socket sv1" "\<forall>d. closes d es2 = 0"
    "TCPServer_thread_unblocked_accept sv1 (nb_errno_after r) (rs @ rest) =
        rbind (TCPServer_thread_unblocked_accept sv2 e2 rest)
          (\<lambda>(sv2, es2', ss2). Inr (sv2, es2 @ es2', sockets_of (map nb_answer rs) @ ss2))"
    using Cons.IH [of sv1 "nb_errno_after r"] Cons.prems m by (auto simp: good_round_def)
  have "accept_event (nb_answer r) = [Ev_Accept (aa_slave (nb_answer r))]"
    using Cons.prems by (simp add: good_round_def accept_event_def)
  then show ?case
    using Cons.prems cb m ih callback_spec(3,4) [OF cb]
    by (intro exI [of _ sv2] exI [of _ e2] exI [of _ "accept_event (nb_answer r) @ es1 @ es2"])
      (auto simp: good_round_def rbind_assoc Let_def split: prod.splits intro!: rbind_cong)
qed

subsection \<open>Properties\<close>

text \<open>
  Starting a server, on every branch: when the kernel grants every request the socket listens,
  the status is OK and the accept thread of the requested kind runs; otherwise no thread runs, the
  server is marked finished, and the status names the first request that was refused. A master socket
  of an earlier start is closed first. The new one stays open only after a refused \<open>SO_REUSEADDR\<close>.
\<close>

theorem TCPServer_start_behaviour:
  assumes "TCPServer_start sv port lt ans = (sv', es, thread)" and "la_socket ans \<ge> -1"
  shows "(thread = Some lt \<and> sv_m_atomic_server_enable sv' \<and> \<not> sv_m_atomic_server_finished sv'
           \<or> thread = None \<and> \<not> sv_m_atomic_server_enable sv' \<and> sv_m_atomic_server_finished sv')
    \<and> sv_m_status sv' =
        (if la_socket ans = -1 then TCPSERVER_SOCKET_ERROR
         else if la_option ans SO_REUSEADDR = -1 then TCPSERVER_SETSOCKOPT_ERROR
         else if la_bind ans = -1 then TCPSERVER_BIND_ERROR
         else if la_listen ans = -1 then TCPSERVER_LISTEN_ERROR else TCPSERVER_OK)
    \<and> (thread = Some lt \<longleftrightarrow> sv_m_status sv' = TCPSERVER_OK)
    \<and> sv_m_master_socket sv' =
        (if sv_m_status sv' \<in> {TCPSERVER_OK, TCPSERVER_SETSOCKOPT_ERROR} then la_socket ans else -1)
    \<and> (sv_m_master_socket sv > 0 \<longrightarrow> hd es = Ev_Close (sv_m_master_socket sv))
    \<and> (thread = Some lt \<longrightarrow> Ev_Bind (la_socket ans) (htons port) 0 \<in> set es
          \<and> last es = Ev_Listen (la_socket ans) 32)"
  using assms
  by (auto simp: TCPServer_start_def TCPServer_start_listen_def TCPServer_reset_status_def
      MAX_PENDING_CONNECTIONS_def Let_def split: if_splits)

theorem TCPServer_start_behaviour_witness:
  "(let ans = \<lparr>la_socket = 7, la_option = (\<lambda>_. 0), la_bind = -1, la_listen = 0\<rparr>
    in case TCPServer_start TCPServer_ctor 8080 TCPSERVER_TIMED ans of (sv', es, thread) \<Rightarrow>
         sv_m_status sv' = TCPSERVER_BIND_ERROR \<and> thread = None \<and> sv_m_master_socket sv' = -1)"
proof -
  define ans where "ans = \<lparr>la_socket = 7, la_option = (\<lambda>_. 0), la_bind = -1, la_listen = 0\<rparr>"
  obtain sv' es thread where "TCPServer_start TCPServer_ctor 8080 TCPSERVER_TIMED ans = (sv', es, thread)"
    by (rule prod_cases3)
  with TCPServer_start_behaviour [OF this] show ?thesis
    unfolding ans_def [symmetric] by (auto simp: ans_def)
qed

text \<open>
  C30. Descriptors of a server: whatever sequence of starts and stops it goes through, with any answers
  of the kernel, every master socket the kernel gave out is closed by a later start, by an error
  path or by the destructor, and none is closed more often than it was given out.
\<close>

theorem TCPServer_closes_master_sockets:
  assumes "server_reach sv es" and "TCPServer_dtor sv = (sv', es')" and "d > 0"
  shows "closes d (es @ es') = opens d (es @ es') \<and> closes d es \<le> opens d es
    \<and> sv_m_master_socket sv' = -1 \<and> \<not> sv_m_atomic_server_enable sv'"
  using server_reach_holds_master [OF assms(1)] assms(2,3)
  by (auto simp: holds_master_def TCPServer_dtor_def split: if_splits)

theorem TCPServer_closes_master_sockets_witness:
  "\<exists>sv es. server_reach sv es \<and> sv_m_master_socket sv = 7 \<and> opens 7 es = 1
     \<and> closes 7 (es @ snd (TCPServer_dtor sv)) = 1"
proof -
  define ans where "ans = \<lparr>la_socket = 7, la_option = (\<lambda>_. 0), la_bind = 0, la_listen = 0\<rparr>"
  obtain sv es th where st: "TCPServer_start TCPServer_ctor 8080 TCPSERVER_TIMED ans = (sv, es, th)"
    by (rule prod_cases3)
  have r: "server_reach sv es"
    using server_start [OF server_new _ st] by (simp add: ans_def)
  have s7: "sv_m_master_socket sv = 7" "opens 7 es = 1"
    using st by (auto simp: TCPServer_start_def TCPServer_start_listen_def TCPServer_ctor_def
        TCPServer_reset_status_def ans_def Let_def)
  with TCPServer_closes_master_sockets [OF r, of "fst (TCPServer_dtor sv)" "snd (TCPServer_dtor sv)" 7]
  have "closes 7 (es @ snd (TCPServer_dtor sv)) = 1" by (simp add: TCPServer_dtor_def)
  with r s7 show ?thesis by blast
qed

text \<open>
  C29. The epoll accept threads: while the wait reports connections on the master socket or times out,
  every connection \<open>accept\<close> returns is handed to the callback, once and in order, whether or not its
  options could be set; the thread ends, and marks the server finished, at the first round that reads
  the stop flag.
\<close>

theorem TCPServer_epoll_loop_delivers:
  assumes "list_all (ready_round (sv_m_master_socket sv)) rs" and "\<not> (er_enabled stop \<and> er_enabled_after stop)"
  shows "\<exists>sv' es. TCPServer_epoll_loop sv (rs @ stop # rest)
       = Inr (sv', es, map (\<lambda>a. TCPSocket_ctor (aa_slave a) (aa_peer a))
                           (filter (\<lambda>a. aa_slave a > 0) (concat (map er_accepts rs))))
     \<and> sv_m_atomic_server_finished sv' \<and> sv_m_master_socket sv' = sv_m_master_socket sv"
proof -
  obtain sv1 es where "sv_m_master_socket sv1 = sv_m_master_socket sv"
      "TCPServer_epoll_loop sv (rs @ stop # rest) = rbind (TCPServer_epoll_loop sv1 (stop # rest))
        (\<lambda>(sv2, es2, ss2). Inr (sv2, es @ es2, sockets_of (concat (map er_accepts rs)) @ ss2))"
    using epoll_loop_ready [OF assms(1), of "stop # rest"] by blast
  with assms(2) show ?thesis by (auto simp: sockets_of_def)
qed

definition demo_accept :: "int \<Rightarrow> accept_answer" where
  "demo_accept d = \<lparr>aa_slave = d, aa_options = (\<lambda>_. 0), aa_peer = Some \<lparr>sin_port = 1, sin_addr = 2\<rparr>\<rparr>"

definition demo_server :: tcp_server where
  "demo_server = TCPServer_ctor\<lparr>sv_m_master_socket := 4\<rparr>"

theorem TCPServer_epoll_loop_delivers_witness:
  "\<exists>sv' es. TCPServer_epoll_loop demo_server
     [\<lparr>er_enabled = True, er_wait = Some [4, 4], er_enabled_after = True, er_accepts = [demo_accept 8, demo_accept (-1)]\<rparr>,
      \<lparr>er_enabled = True, er_wait = None, er_enabled_after = False, er_accepts = []\<rparr>]
   = Inr (sv', es, [TCPSocket_ctor 8 (Some \<lparr>sin_port = 1, sin_addr = 2\<rparr>)])"
  using TCPServer_epoll_loop_delivers [of demo_server
      "[\<lparr>er_enabled = True, er_wait = Some [4, 4], er_enabled_after = True, er_accepts = [demo_accept 8, demo_accept (-1)]\<rparr>]"
      "\<lparr>er_enabled = True, er_wait = None, er_enabled_after = False, er_accepts = []\<rparr>" "[]"]
  by (auto simp: ready_round_def demo_server_def demo_accept_def)

text \<open>
  A server whose callback was not set drops its connections: every connection its epoll thread accepts is
  closed at once, each exactly once, and none reaches the user.
\<close>

theorem TCPServer_default_callback_closes:
  assumes "list_all (ready_round (sv_m_master_socket sv)) rs" and "\<not> (er_enabled stop \<and> er_enabled_after stop)"
    and "sv_m_accepted_callback sv = Default_callback"
    and "\<forall>a \<in> set (concat (map er_accepts rs)). aa_peer a \<noteq> None" and "d > 0"
  shows "\<exists>sv' es ss es'. TCPServer_epoll_loop sv (rs @ stop # rest) = Inr (sv', es, ss)
    \<and> TCPServer_accepted_callback sv ss = ([], es')
    \<and> closes d es' = count_list (map aa_slave (concat (map er_accepts rs))) d"
proof -
  have one: "closes k (TCPServer_default_accepted_callback (TCPSocket_ctor i (Some p)))
      = (if i = k then 1 else 0)" if "i > 0" for i p k
    using that by (auto simp: TCPServer_default_accepted_callback_def TCPSocket_dtor_def TCPSocket_ctor_def
        TCPSocket_set_descriptor_def TCPSocket_close_descriptor_def op_defs Let_def)
  have "closes d (concat (map TCPServer_default_accepted_callback (sockets_of as))) = count_list (map aa_slave as) d"
    if "\<forall>a \<in> set as. aa_peer a \<noteq> None" for as
    using that assms(5) by (induction as) (auto simp: one)
  moreover obtain sv1 es where "TCPServer_epoll_loop sv (rs @ stop # rest) = rbind (TCPServer_epoll_loop sv1 (stop # rest))
        (\<lambda>(sv2, es2, ss2). Inr (sv2, es @ es2, sockets_of (concat (map er_accepts rs)) @ ss2))"
    using epoll_loop_ready [OF assms(1), of "stop # rest"] by blast
  ultimately show ?thesis using assms(2-4) by (auto simp: TCPServer_accepted_callback_def)
qed

text \<open>
  When \<open>epoll_wait\<close> fails, which it does when a signal interrupts it, the count \<open>-1\<close> is compared as
  an unsigned number with the index: the loop runs over events that were never stored, a memory fault,
  whatever connections were handled before.
\<close>

theorem TCPServer_epoll_error_faults:
  assumes "list_all (ready_round (sv_m_master_socket sv)) rs"
    and "er_enabled r" and "er_enabled_after r" and "er_wait r = None"
  shows "epoll_bound (er_wait r) = 4294967295 \<and> TCPServer_epoll_loop sv (rs @ r # rest) = Inl Bad_Memory"
proof -
  obtain sv1 es where "TCPServer_epoll_loop sv (rs @ r # rest) = rbind (TCPServer_epoll_loop sv1 (r # rest))
        (\<lambda>(sv2, es2, ss2). Inr (sv2, es @ es2, sockets_of (concat (map er_accepts rs)) @ ss2))"
    using epoll_loop_ready [OF assms(1), of "r # rest"] by blast
  moreover have "epoll_events sv1 None 0 (er_accepts r) = Inl Bad_Memory"
    by (subst epoll_events.simps) (simp add: event_at_def)
  ultimately show ?thesis using assms(2-) by simp
qed

theorem TCPServer_epoll_error_faults_witness:
  "TCPServer_epoll_loop demo_server
     [\<lparr>er_enabled = True, er_wait = None, er_enabled_after = True, er_accepts = []\<rparr>] = Inl Bad_Memory"
  using TCPServer_epoll_error_faults [of demo_server "[]"
      "\<lparr>er_enabled = True, er_wait = None, er_enabled_after = True, er_accepts = []\<rparr>" "[]"]
  by simp

text \<open>
  C36. The non-blocking accept thread looks at \<open>errno\<close> before it looks at the result of \<open>accept\<close>.
  Connections are handed over as long as one is always waiting; after the first call that finds none,
  \<open>errno\<close> stays \<open>EAGAIN\<close>, and every later connection is accepted by the kernel but neither handed to
  the callback nor closed.
\<close>

theorem TCPServer_unblocked_accept_stale_errno:
  assumes "sv_m_master_socket sv > 0" and "list_all good_round rs"
    and "stays_EAGAIN none" and "aa_slave (nb_answer none) = -1"
    and "list_all stays_EAGAIN later" and "\<not> nb_enabled stop"
  shows "\<exists>sv' es. TCPServer_thread_unblocked_accept sv None (rs @ none # later @ [stop])
       = Inr (sv', es, sockets_of (map nb_answer rs))
     \<and> (\<forall>d > 0. d \<in> set (map (\<lambda>r. aa_slave (nb_answer r)) later) \<longrightarrow> accepts d es > 0 \<and> closes d es = 0)"
proof -
  obtain sv1 e1 es1 where sv1: "sv_m_master_socket sv1 = sv_m_master_socket sv" "\<forall>d. closes d es1 = 0"
    and run: "TCPServer_thread_unblocked_accept sv None (rs @ none # later @ [stop]) =
        rbind (TCPServer_thread_unblocked_accept sv1 e1 (none # later @ [stop]))
          (\<lambda>(sv2, es2, ss2). Inr (sv2, es1 @ es2, sockets_of (map nb_answer rs) @ ss2))"
    using unblocked_good_rounds [OF assms(1,2), of None "none # later @ [stop]"] by auto
  obtain sv2 es2 where
    "TCPServer_thread_unblocked_accept sv1 (Some EAGAIN) (later @ [stop]) = Inr (sv2, es2, [])"
    "\<forall>d > 0. accepts d es2 = count_list (map (\<lambda>r. aa_slave (nb_answer r)) later) d \<and> closes d es2 = 0"
    using stale_errno [of sv1 later stop] assms sv1 by auto
  with sv1 run assms(1,3,4) show ?thesis
    by (auto simp: stays_EAGAIN_def accept_event_def Let_def count_list_0_iff
        intro!: gr0I dest!: count_list_0_iff [THEN iffD1])
qed

theorem TCPServer_unblocked_accept_stale_errno_witness:
  "\<exists>sv' es. TCPServer_thread_unblocked_accept demo_server None
     [\<lparr>nb_enabled = True, nb_answer = demo_accept 8, nb_errno = EINTR, nb_errno_after = None\<rparr>,
      \<lparr>nb_enabled = True, nb_answer = demo_accept (-1), nb_errno = EAGAIN, nb_errno_after = None\<rparr>,
      \<lparr>nb_enabled = True, nb_answer = demo_accept 9, nb_errno = EINTR, nb_errno_after = None\<rparr>,
      \<lparr>nb_enabled = False, nb_answer = demo_accept 9, nb_errno = EINTR, nb_errno_after = None\<rparr>]
     = Inr (sv', es, [TCPSocket_ctor 8 (Some \<lparr>sin_port = 1, sin_addr = 2\<rparr>)])
   \<and> accepts 9 es > 0 \<and> closes 9 es = 0"
  using TCPServer_unblocked_accept_stale_errno [of demo_server
      "[\<lparr>nb_enabled = True, nb_answer = demo_accept 8, nb_errno = EINTR, nb_errno_after = None\<rparr>]"
      "\<lparr>nb_enabled = True, nb_answer = demo_accept (-1), nb_errno = EAGAIN, nb_errno_after = None\<rparr>"
      "[\<lparr>nb_enabled = True, nb_answer = demo_accept 9, nb_errno = EINTR, nb_errno_after = None\<rparr>]"
      "\<lparr>nb_enabled = False, nb_answer = demo_accept 9, nb_errno = EINTR, nb_errno_after = None\<rparr>"]
  by (simp add: good_round_def stays_EAGAIN_def demo_server_def demo_accept_def)

end
