(* ===== verification/Tcp_Client.thy ===== *)
theory Tcp_Client
  imports Tcp_Socket
begin

text \<open>
  \<open>connections/network/TCPClient.h\<close> and \<open>.cpp\<close>: the connecting side. The callback is the user's code;
  the sockets given to it are listed in the result. Console messages are left out.
\<close>

datatype NetClientStatus =
  TCPCLIENT_OK | TCPCLIENT_SOCKET_CONNECT_ERROR | TCPCLIENT_SOCKET_ERROR | TCPCLIENT_SETSOCKOPT_ERROR

record tcp_client =
  cl_m_status :: NetClientStatus
  cl_m_ip :: string
  cl_m_port :: u16
  cl_m_accepted_callback :: socket_callback

definition TCP_CLIENT_RCVBUF_SIZE :: u32 where
  "TCP_CLIENT_RCVBUF_SIZE = 65536"

definition TCP_CLIENT_SNDBUF_SIZE :: u32 where
  "TCP_CLIENT_SNDBUF_SIZE = 65536"

definition TCP_CLIENT_RCV_TIMEOUT_MSEC :: nat where
  "TCP_CLIENT_RCV_TIMEOUT_MSEC = 1000"

definition TCP_CLIENT_SND_TIMEOUT_MSEC :: nat where
  "TCP_CLIENT_SND_TIMEOUT_MSEC = 1000"

definition TCPClient_ctor :: tcp_client where
  "TCPClient_ctor = \<lparr>cl_m_status = TCPCLIENT_OK, cl_m_ip = ''0.0.0.0'', cl_m_port = 0,
     cl_m_accepted_callback = Default_callback\<rparr>"

definition TCPClient_set_connected_callback :: "socket_callback \<Rightarrow> tcp_client \<Rightarrow> tcp_client" where
  "TCPClient_set_connected_callback cb c = c\<lparr>cl_m_accepted_callback := cb\<rparr>"

definition TCPClient_status :: "tcp_client \<Rightarrow> NetClientStatus" where
  "TCPClient_status c = cl_m_status c"

definition TCPClient_reset_status :: "tcp_client \<Rightarrow> tcp_client" where
  "TCPClient_reset_status c = c\<lparr>cl_m_status := TCPCLIENT_OK\<rparr>"

definition client_flags :: "opt_triple list" where
  "client_flags =
     [(SOL_SOCKET, SO_KEEPALIVE, Opt_int 1), (SOL_TCP, TCP_KEEPIDLE, Opt_int 2),
      (SOL_TCP, TCP_KEEPCNT, Opt_int 3), (SOL_TCP, TCP_KEEPINTVL, Opt_int 400),
      (SOL_TCP, TCP_USER_TIMEOUT, Opt_int 4000), (SOL_TCP, TCP_NODELAY, Opt_int 1),
      (SOL_TCP, TCP_QUICKACK, Opt_int 1)]"

definition TCPClient_set_client_socket_flags ::
  "tcp_client \<Rightarrow> int \<Rightarrow> option_answers \<Rightarrow> int \<times> tcp_client \<times> os_event list" where
  "TCPClient_set_client_socket_flags c s ans =
     (case set_options s client_flags ans of
        (False, es) \<Rightarrow> (-1, c\<lparr>cl_m_status := TCPCLIENT_SETSOCKOPT_ERROR\<rparr>, es)
      | (True, es) \<Rightarrow>
          let read_delay = Opt_timeval (TCP_CLIENT_RCV_TIMEOUT_MSEC div 1000) (TCP_CLIENT_RCV_TIMEOUT_MSEC mod 1000);
              es1 = es @ [Ev_Set_Option s (SOL_SOCKET, SO_RCVTIMEO, read_delay)]
          in if ans SO_RCVTIMEO < 0 then (-1, c\<lparr>cl_m_status := TCPCLIENT_SETSOCKOPT_ERROR\<rparr>, es1)
             else
               let write_delay = Opt_timeval (TCP_CLIENT_SND_TIMEOUT_MSEC div 1000) (TCP_CLIENT_SND_TIMEOUT_MSEC mod 1000);
                   es2 = es1 @ [Ev_Set_Option s (SOL_SOCKET, SO_SNDTIMEO, write_delay)]
               in if ans SO_SNDTIMEO < 0 then (-1, c\<lparr>cl_m_status := TCPCLIENT_SETSOCKOPT_ERROR\<rparr>, es2)
                  else (0, c, es2))"

text \<open>
  The answers to one \<open>connect\<close>: of \<open>socket\<close>, of \<open>inet_pton\<close> (its value and the address in network
  byte order), of \<open>connect\<close>, of \<open>setsockopt\<close> and of \<open>getpeername\<close>.
\<close>

record connect_answers =
  ca_socket :: int
  ca_pton :: "int \<times> u32"
  ca_connect :: int
  ca_options :: option_answers
  ca_peer :: "sockaddr_in option"

definition TCPClient_call_connect_callback_function ::
  "tcp_client \<Rightarrow> int \<Rightarrow> connect_answers \<Rightarrow> tcp_client \<times> os_event list \<times> tcp_socket list" where
  "TCPClient_call_connect_callback_function c s ans =
     (if s \<le> 0 then (c, [], [])
      else case TCPClient_set_client_socket_flags c s (ca_options ans) of
             (status, c1, es) \<Rightarrow> (c1, es, [TCPSocket_ctor s (ca_peer ans)]))"

definition TCPClient_connect ::
  "tcp_client \<Rightarrow> string \<Rightarrow> u16 \<Rightarrow> connect_answers \<Rightarrow> tcp_client \<times> os_event list \<times> tcp_socket list" where
  "TCPClient_connect c0 ip port ans =
     (let c = TCPClient_reset_status (c0\<lparr>cl_m_port := port, cl_m_ip := ip\<rparr>);
          slave_socket = ca_socket ans
      in if slave_socket < 0 then (c\<lparr>cl_m_status := TCPCLIENT_SOCKET_CONNECT_ERROR\<rparr>, [], [])
         else
           let es1 = [Ev_Socket slave_socket];
               sin_port = htons (cl_m_port c);
               (s, s_addr) = ca_pton ans
           in if s \<le> 0
              then if s = 0 then (c\<lparr>cl_m_status := TCPCLIENT_SOCKET_ERROR\<rparr>, es1, [])
                   else (c\<lparr>cl_m_status := TCPCLIENT_SOCKET_ERROR\<rparr>, es1, [])
              else
                let es2 = es1 @ [Ev_Set_Option slave_socket (SOL_SOCKET, SO_RCVBUF, Opt_int TCP_CLIENT_RCVBUF_SIZE),
                                 Ev_Set_Option slave_socket (SOL_SOCKET, SO_SNDBUF, Opt_int TCP_CLIENT_SNDBUF_SIZE),
                                 Ev_Connect slave_socket sin_port s_addr]
                in if ca_connect ans = 0
                   then case TCPClient_call_connect_callback_function c slave_socket ans of
                          (c1, es3, ss) \<Rightarrow> (c1, es2 @ es3, ss)
                   else (c\<lparr>cl_m_status := TCPCLIENT_SOCKET_ERROR\<rparr>, es2, []))"

text \<open>What the callback does with the sockets of a \<open>connect\<close>: the default one destroys them.\<close>

definition TCPClient_default_connected_callback :: "tcp_socket \<Rightarrow> os_event list" where
  "TCPClient_default_connected_callback s = snd (TCPSocket_dtor s)"

definition TCPClient_connected_callback :: "tcp_client \<Rightarrow> tcp_socket list \<Rightarrow> tcp_socket list \<times> os_event list" where
  "TCPClient_connected_callback c ss =
     (case cl_m_accepted_callback c of
        User_callback \<Rightarrow> (ss, [])
      | Default_callback \<Rightarrow> ([], concat (map TCPClient_default_connected_callback ss)))"

subsection \<open>A sequence of connection attempts\<close>

fun client_run ::
  "tcp_client \<Rightarrow> (string \<times> u16 \<times> connect_answers) list \<Rightarrow> tcp_client \<times> os_event list \<times> tcp_socket list" where
  "client_run c [] = (c, [], [])"
| "client_run c ((ip, port, ans) # xs) =
     (case TCPClient_connect c ip port ans of (c1, es1, ss1) \<Rightarrow>
        case client_run c1 xs of (c2, es2, ss2) \<Rightarrow> (c2, es1 @ es2, ss1 @ ss2))"

text \<open>An attempt succeeds when the address is well formed and the kernel connects.\<close>

definition connects :: "connect_answers \<Rightarrow> bool" where
  "connects ans \<longleftrightarrow> fst (ca_pton ans) > 0 \<and> ca_connect ans = 0"

definition descriptor_count :: "int \<Rightarrow> (string \<times> u16 \<times> connect_answers) list \<Rightarrow> nat" where
  "descriptor_count d xs = count_list (map (\<lambda>(ip, port, ans). ca_socket ans) xs) d"

lemma descriptor_count_split:
  "descriptor_count d xs = descriptor_count d (filter P xs) + descriptor_count d (filter (\<lambda>x. \<not> P x) xs)"
  by (induction xs) (auto simp: descriptor_count_def)

lemma client_flags_spec:
  assumes "TCPClient_set_client_socket_flags c s ans = (r, c', es)"
  shows "c' = (if r = 0 then c else c\<lparr>cl_m_status := TCPCLIENT_SETSOCKOPT_ERROR\<rparr>)"
    and "r = 0 \<longleftrightarrow> list_all (\<lambda>(l, n, v). ans n \<ge> 0) client_flags \<and> ans SO_RCVTIMEO \<ge> 0 \<and> ans SO_SNDTIMEO \<ge> 0"
    and "closes d es = 0" and "opens d es = 0"
  using assms set_options_ok [of s client_flags ans]
  by (auto simp: TCPClient_set_client_socket_flags_def Let_def split: if_splits prod.splits bool.splits)

lemma connect_events:
  assumes "TCPClient_connect c ip port ans = (c', es, ss)" and "d > 0"
  shows "closes d es = 0" and "opens d es = (if ca_socket ans = d then 1 else 0)"
    and "ss = (if ca_socket ans > 0 \<and> connects ans then [TCPSocket_ctor (ca_socket ans) (ca_peer ans)] else [])"
proof -
  obtain r c1 fl where fl: "TCPClient_set_client_socket_flags
      (TCPClient_reset_status (c\<lparr>cl_m_port := port, cl_m_ip := ip\<rparr>)) (ca_socket ans) (ca_options ans) = (r, c1, fl)"
    by (rule prod_cases3)
  show "closes d es = 0" "opens d es = (if ca_socket ans = d then 1 else 0)"
    "ss = (if ca_socket ans > 0 \<and> connects ans then [TCPSocket_ctor (ca_socket ans) (ca_peer ans)] else [])"
    using assms fl client_flags_spec(3,4) [OF fl]
    by (auto simp: TCPClient_connect_def TCPClient_call_connect_callback_function_def connects_def Let_def
        split: if_splits prod.splits)
qed

lemma client_run_events:
  assumes "client_run c xs = (c', es, ss)" and "d > 0"
  shows "closes d es = 0 \<and> opens d es = count_list (map (\<lambda>(ip, port, ans). ca_socket ans) xs) d
    \<and> ss = map (\<lambda>(ip, port, ans). TCPSocket_ctor (ca_socket ans) (ca_peer ans))
            (filter (\<lambda>(ip, port, ans). ca_socket ans > 0 \<and> connects ans) xs)"
  using assms
proof (induction c xs arbitrary: c' es ss rule: client_run.induct)
  case (1 c)
  then show ?case by simp
next
  case (2 c ip port ans xs)
  obtain c1 es1 ss1 where con: "TCPClient_connect c ip port ans = (c1, es1, ss1)" by (rule prod_cases3)
  obtain c2 es2 ss2 where run: "client_run c1 xs = (c2, es2, ss2)" by (rule prod_cases3)
  show ?case
    using 2(2) 2(1) [OF con [symmetric] refl run \<open>d > 0\<close>] con run connect_events [OF con \<open>d > 0\<close>] by auto
qed

subsection \<open>Properties\<close>

text \<open>
  One connection attempt, on every branch: the status says which step failed, the socket goes to
  the callback exactly when the connection was made, and a refused option shows in the status but does
  not keep the socket from being handed over. The port reaches the kernel in network byte order.
\<close>

theorem TCPClient_connect_behaviour:
  assumes "ca_socket ans \<noteq> 0"
    and "TCPClient_connect c ip port ans = (c', es, ss)"
  shows "ss = (if ca_socket ans > 0 \<and> fst (ca_pton ans) > 0 \<and> ca_connect ans = 0
               then [TCPSocket_ctor (ca_socket ans) (ca_peer ans)] else [])
    \<and> cl_m_status c' =
        (if ca_socket ans < 0 then TCPCLIENT_SOCKET_CONNECT_ERROR
         else if fst (ca_pton ans) \<le> 0 \<or> ca_connect ans \<noteq> 0 then TCPCLIENT_SOCKET_ERROR
         else if list_all (\<lambda>(l, n, v). ca_options ans n \<ge> 0) client_flags
             \<and> ca_options ans SO_RCVTIMEO \<ge> 0 \<and> ca_options ans SO_SNDTIMEO \<ge> 0 then TCPCLIENT_OK
         else TCPCLIENT_SETSOCKOPT_ERROR)
    \<and> (ss \<noteq> [] \<longrightarrow> Ev_Connect (ca_socket ans) (htons port) (snd (ca_pton ans)) \<in> set es)
    \<and> cl_m_ip c' = ip \<and> cl_m_port c' = port"
proof -
  let ?c = "TCPClient_reset_status (c\<lparr>cl_m_port := port, cl_m_ip := ip\<rparr>)"
  obtain r c1 fl where fl: "TCPClient_set_client_socket_flags ?c (ca_socket ans) (ca_options ans) = (r, c1, fl)"
    by (rule prod_cases3)
  note spec = client_flags_spec(1,2) [OF fl]
  have "cl_m_status ?c = TCPCLIENT_OK" "cl_m_ip ?c = ip" "cl_m_port ?c = port"
    by (simp_all add: TCPClient_reset_status_def)
  with assms fl spec show ?thesis
    by (cases "r = 0") (auto simp: TCPClient_connect_def TCPClient_call_connect_callback_function_def Let_def
        split: if_splits prod.splits)
qed

definition demo_connect :: "int \<Rightarrow> int \<Rightarrow> connect_answers" where
  "demo_connect d con = \<lparr>ca_socket = d, ca_pton = (1, 0x0100007F), ca_connect = con,
     ca_options = (\<lambda>n. if n = TCP_KEEPINTVL then -1 else 0), ca_peer = None\<rparr>"

theorem TCPClient_connect_behaviour_witness:
  "\<exists>c' es. TCPClient_connect TCPClient_ctor ''127.0.0.1'' 8080 (demo_connect 6 0)
       = (c', es, [TCPSocket_ctor 6 None]) \<and> cl_m_status c' = TCPCLIENT_SETSOCKOPT_ERROR"
proof -
  obtain c' es ss where "TCPClient_connect TCPClient_ctor ''127.0.0.1'' 8080 (demo_connect 6 0) = (c', es, ss)"
    by (rule prod_cases3)
  with TCPClient_connect_behaviour [OF _ this] show ?thesis
    by (auto simp: demo_connect_def client_flags_def)
qed

text \<open>
  C37. The client never closes a descriptor. Over any sequence of attempts, each successful one hands
  its descriptor to the callback, in order; each attempt that got a descriptor and then failed, on the
  address or on the connection, leaves it open for ever.
\<close>

theorem TCPClient_leaks_failed_descriptors:
  assumes "client_run c xs = (c', es, ss)" and "d > 0"
  shows "closes d es = 0
    \<and> opens d es = descriptor_count d (filter (\<lambda>(ip, port, ans). connects ans) xs)
        + descriptor_count d (filter (\<lambda>(ip, port, ans). \<not> connects ans) xs)
    \<and> ss = map (\<lambda>(ip, port, ans). TCPSocket_ctor (ca_socket ans) (ca_peer ans))
            (filter (\<lambda>(ip, port, ans). ca_socket ans > 0 \<and> connects ans) xs)"
  using client_run_events [OF assms] descriptor_count_split [of d xs "\<lambda>(ip, port, ans). connects ans"]
  by (simp add: descriptor_count_def split_def)

theorem TCPClient_leaks_failed_descriptors_witness:
  "\<exists>c' es. client_run TCPClient_ctor
       [(''127.0.0.1'', 8080, demo_connect 6 (-1)), (''127.0.0.1'', 8081, demo_connect 7 0)]
     = (c', es, [TCPSocket_ctor 7 None]) \<and> opens 6 es = 1 \<and> closes 6 es = 0"
proof -
  let ?xs = "[(''127.0.0.1'', 8080, demo_connect 6 (-1)), (''127.0.0.1'', 8081, demo_connect 7 0)]"
  obtain c' es ss where "client_run TCPClient_ctor ?xs = (c', es, ss)" by (rule prod_cases3)
  with TCPClient_leaks_failed_descriptors [OF this, of 6] show ?thesis
    by (auto simp: demo_connect_def connects_def descriptor_count_def)
qed

end
