(* ===== verification/Connection_Setup.thy ===== *)
theory Connection_Setup
  imports Local_Transfer Tcp_Server Tcp_Client
begin

text \<open>
  The parts of the program together: a client connects, the accept thread of a server takes the connection over,
  both sides give their socket to a TCP worker, and the users of the two processes exchange datagrams, while
  the server serves another connection.
\<close>

subsection \<open>The sockets that are handed over\<close>

lemma ctor_open: "d > 0 \<Longrightarrow> open_socket (TCPSocket_ctor d (Some a)) \<and> ts_m_descr (TCPSocket_ctor d (Some a)) = d"
  by (simp add: open_socket_def TCPSocket_ctor_def TCPSocket_set_descriptor_def op_defs Let_def)

lemma connected_open:
  assumes "TCPClient_connect c ip port ans = (c', es, ss)" and "s \<in> set ss" and "ca_peer ans \<noteq> None"
  shows "open_socket s \<and> ts_m_descr s = ca_socket ans"
  using connect_events(3) [OF assms(1), of 1] assms(2,3) ctor_open [of "ca_socket ans"] by (auto split: if_splits)

lemma accepted_sockets:
  assumes "list_all (ready_round (sv_m_master_socket sv)) rs" and "\<not> (er_enabled stop \<and> er_enabled_after stop)"
    and "TCPServer_epoll_loop sv (rs @ stop # rest) = Inr (sv', es, ss)"
  shows "ss = sockets_of (concat (map er_accepts rs))"
proof -
  obtain sv1 es1 where "TCPServer_epoll_loop sv (rs @ stop # rest) = rbind (TCPServer_epoll_loop sv1 (stop # rest))
        (\<lambda>(sv2, es2, ss2). Inr (sv2, es1 @ es2, sockets_of (concat (map er_accepts rs)) @ ss2))"
    using epoll_loop_ready [OF assms(1), of "stop # rest"] by blast
  with assms(2,3) show ?thesis by (auto split: if_splits)
qed

lemma accepted_open:
  assumes "s \<in> set (sockets_of as)" and "\<forall>a \<in> set as. aa_peer a \<noteq> None"
  shows "open_socket s"
  using assms ctor_open by (fastforce simp: sockets_of_def)

subsection \<open>Workers of a connection\<close>

text \<open>A worker as its users prepare it: fresh queues and the example's parser. What its users send is framed.\<close>

definition prepared_worker :: "connection_worker \<Rightarrow> bool" where
  "prepared_worker w \<longleftrightarrow> fresh_queue (cw_m_queue_for_reading w) \<and> fresh_queue (cw_m_queue_for_writing w)
     \<and> cw_m_parser w = Some (Obj_ParserExample ParserExample_ctor)"

definition frames_of :: "bytes list \<Rightarrow> worker_event list \<Rightarrow> bool" where
  "frames_of ps tr \<longleftrightarrow> (\<forall>d \<in> set ps. length d \<le> 65523)
     \<and> map (\<lambda>d. prepare_data_for_sending d (length d)) ps = map Inr (produced tr)"

text \<open>What the users of one end have taken or find in the queue is a prefix of what those of the other end put in.\<close>

definition delivered :: "tcp_socket option worker_run \<Rightarrow> worker_event list \<Rightarrow> bytes
    \<Rightarrow> tcp_socket option worker_run \<Rightarrow> worker_event list \<Rightarrow> bool" where
  "delivered st1 tr1 in_flight st2 tr2 \<longleftrightarrow>
     (\<exists>q1 q2 later. cw_m_queue_for_writing (wr_worker st1) = Some q1
        \<and> cw_m_queue_for_reading (wr_worker st2) = Some q2 \<and> consumed tr2 @ deco_cont q2 @ later = produced tr1
        \<and> (deco_cont q1 = [] \<and> in_flight = [] \<and> wr_rpc st2 = R_Read \<longrightarrow> later = []))"

lemma prepared_transfer:
  assumes "worker_steps tcp_source steady_kernel (worker_started w1 (Some s1)) st1 tr1" and "open_socket s1"
    and "worker_steps tcp_source steady_kernel (worker_started w2 (Some s2)) st2 tr2"
    and "prepared_worker w1" and "prepared_worker w2" and "frames_of ps tr1"
    and "wire (ts_m_descr s1) es = wire (ts_m_descr s1) (os_trace tr1)"
    and "received tr2 @ in_flight = wire (ts_m_descr s1) es"
  shows "delivered st1 tr1 in_flight st2 tr2"
  using tcp_transfer [where ps = ps, OF assms(1) _ assms(2) _ _ assms(7,8) worker_steps_mono [OF assms(3) steady_is_tcp]] assms(4-6)
  by (simp add: delivered_def prepared_worker_def frames_of_def)

subsection \<open>Properties\<close>



end
