(* ===== verification/Socket_Threads.thy ===== *)
theory Socket_Threads
  imports Tcp_Socket
begin

text \<open>
  \<open>TCPSocket\<close> under two threads. A worker calls \<open>read\<close> and \<open>write\<close> of one socket from two threads, and the
  class takes no lock; its members \<open>m_status\<close> and \<open>m_descr\<close> are shared. Here both methods are machines whose
  steps are the single accesses to these members and the single system calls, in the order of the source.
  Run alone they compute \<open>TCPSocket_read\<close> and \<open>TCPSocket_write\<close>; interleaved they need not.
\<close>

subsection \<open>The steps of a call\<close>

text \<open>
  Program counters. \<open>S_Loop\<close> and \<open>S_Send\<close> hold \<open>sent_size\<close>; \<open>S_Set\<close> is the assignment before the call of
  \<open>close_descriptor\<close>, whose body the counters \<open>S_Close_Reset\<close> to \<open>S_Close_Status\<close> walk through.
\<close>

datatype sock_pc =
  S_Status | S_Reset | S_Descr | S_Recv | S_Loop nat | S_Send nat | S_Set NetSocketStatus
  | S_Close_Reset | S_Close_Test | S_Close_Call | S_Close_Forget | S_Close_Status | S_Descr_Error | S_Return int

text \<open>
  The steps that \<open>read\<close> and \<open>write\<close> have in common; \<open>entry\<close> is where a call goes on when the descriptor is
  open.
\<close>

fun sock_step :: "sock_pc \<Rightarrow> tcp_socket \<Rightarrow> sock_pc \<Rightarrow> sock_pc \<times> tcp_socket \<times> os_event list" where
  "sock_step entry s S_Status = (if ts_m_status s \<noteq> TCPSOCKET_OK then S_Return (-1) else S_Reset, s, [])"
| "sock_step entry s S_Reset = (S_Descr, TCPSocket_reset_status s, [])"
| "sock_step entry s S_Descr = (if ts_m_descr s > 0 then entry else S_Descr_Error, s, [])"
| "sock_step entry s (S_Set st) = (S_Close_Reset, s\<lparr>ts_m_status := st\<rparr>, [])"
| "sock_step entry s S_Close_Reset = (S_Close_Test, TCPSocket_reset_status s, [])"
| "sock_step entry s S_Close_Test = (if ts_m_descr s > 0 then S_Close_Call else S_Close_Status, s, [])"
| "sock_step entry s S_Close_Call = (S_Close_Forget, s, [Ev_Close (ts_m_descr s)])"
| "sock_step entry s S_Close_Forget = (S_Close_Status, s\<lparr>ts_m_descr := -1\<rparr>, [])"
| "sock_step entry s S_Close_Status = (S_Return (-1), s\<lparr>ts_m_status := TCPSOCKET_CLOSED\<rparr>, [])"
| "sock_step entry s S_Descr_Error = (S_Return (-1), s\<lparr>ts_m_status := TCPSOCKET_DESCRIPTOR_ERROR\<rparr>, [])"
| "sock_step entry s pc = (pc, s, [])"

text \<open>A step of \<open>read\<close> with the answer of \<open>recv\<close>, which only the step \<open>S_Recv\<close> looks at.\<close>

definition read_step ::
  "tcp_socket \<Rightarrow> sock_pc \<Rightarrow> u8 sized_array \<Rightarrow> recv_answer
    \<Rightarrow> (sock_pc \<times> tcp_socket \<times> u8 sized_array \<times> os_event list) result" where
  "read_step s pc buf ans =
     (case pc of
        S_Recv \<Rightarrow>
          (case ans of
             Recv_error e \<Rightarrow>
               if e = EAGAIN \<or> e = EINTR \<or> e = EWOULDBLOCK then Inr (S_Return 0, s, buf, [])
               else Inr (S_Set TCPSOCKET_CLOSED, s, buf, [])
           | Received bs \<Rightarrow>
               if bs = [] then Inr (S_Set TCPSCOKET_CLOSED_BY_PEER, s, buf, [])
               else if NETSOCKET_ARRAY_SIZE < length bs then Inl Bad_Memory
               else rbind (copy_to_front bs buf) (\<lambda>buf1.
                      Inr (S_Return (int (length bs)), s, SizedArray_resize buf1 (length bs), [])))
      | _ \<Rightarrow> (case sock_step S_Recv s pc of (pc', s', es) \<Rightarrow> Inr (pc', s', buf, es)))"

text \<open>A step of \<open>write\<close>; only \<open>S_Send\<close> looks at the answer of \<open>send\<close>.\<close>

definition write_step ::
  "tcp_socket \<Rightarrow> sock_pc \<Rightarrow> u8 sized_array \<Rightarrow> send_answer
    \<Rightarrow> sock_pc \<times> tcp_socket \<times> u8 sized_array \<times> os_event list" where
  "write_step s pc buf ans =
     (case pc of
        S_Loop k \<Rightarrow>
          if k < SizedArray_data_size buf then (S_Send k, s, buf, [])
          else (S_Return (int k), s, SizedArray_clear buf, [])
      | S_Send k \<Rightarrow>
          (case ans of
             Send_error e \<Rightarrow>
               if e = EAGAIN \<or> e = ENOBUFS then (S_Return 0, s, buf, []) else (S_Set TCPSOCKET_CLOSED, s, buf, [])
           | Sent n \<Rightarrow> (S_Loop (k + n), s, buf, [Ev_Send (ts_m_descr s) (take n (drop k (sa_data buf)))]))
      | _ \<Rightarrow> (case sock_step (S_Loop 0) s pc of (pc', s', es) \<Rightarrow> (pc', s', buf, es)))"

subsection \<open>A call that runs alone\<close>

fun sock_rank :: "sock_pc \<Rightarrow> nat" where
  "sock_rank S_Status = 12"
| "sock_rank S_Reset = 11"
| "sock_rank S_Descr = 10"
| "sock_rank (S_Loop k) = 9"
| "sock_rank S_Recv = 8"
| "sock_rank (S_Send k) = 8"
| "sock_rank (S_Set st) = 7"
| "sock_rank S_Close_Reset = 6"
| "sock_rank S_Close_Test = 5"
| "sock_rank S_Close_Call = 4"
| "sock_rank S_Close_Forget = 3"
| "sock_rank S_Close_Status = 2"
| "sock_rank S_Descr_Error = 2"
| "sock_rank (S_Return r) = 0"

function read_alone ::
  "tcp_socket \<Rightarrow> sock_pc \<Rightarrow> u8 sized_array \<Rightarrow> recv_answer
    \<Rightarrow> (int \<times> tcp_socket \<times> u8 sized_array \<times> os_event list) result" where
  "read_alone s pc buf ans =
     (case pc of
        S_Return r \<Rightarrow> Inr (r, s, buf, [])
      | S_Loop k \<Rightarrow> Inl Blocked
      | S_Send k \<Rightarrow> Inl Blocked
      | _ \<Rightarrow> (case read_step s pc buf ans of
                Inl f \<Rightarrow> Inl f
              | Inr (pc', s', buf', es) \<Rightarrow>
                  rbind (read_alone s' pc' buf' ans) (\<lambda>(r, s2, buf2, es2). Inr (r, s2, buf2, es @ es2))))"
  by pat_completeness auto
termination
  by (relation "measure (\<lambda>(s, pc, buf, ans). sock_rank pc)")
    (auto simp: read_step_def rbind_eq_Inr split: if_splits recv_answer.splits)

function write_alone ::
  "tcp_socket \<Rightarrow> sock_pc \<Rightarrow> u8 sized_array \<Rightarrow> send_answer list
    \<Rightarrow> (int \<times> tcp_socket \<times> u8 sized_array \<times> os_event list \<times> send_answer list) option" where
  "write_alone s pc buf as =
     (case pc of
        S_Return r \<Rightarrow> Some (r, s, buf, [], as)
      | S_Recv \<Rightarrow> None
      | S_Send k \<Rightarrow>
          (case as of
             [] \<Rightarrow> None
           | a # as1 \<Rightarrow>
               (case write_step s pc buf a of (pc', s', buf', es) \<Rightarrow>
                  Option.bind (write_alone s' pc' buf' as1) (\<lambda>(r, s2, buf2, es2, as2).
                    Some (r, s2, buf2, es @ es2, as2))))
      | _ \<Rightarrow>
          (case write_step s pc buf (Sent 0) of (pc', s', buf', es) \<Rightarrow>
             Option.bind (write_alone s' pc' buf' as) (\<lambda>(r, s2, buf2, es2, as2).
               Some (r, s2, buf2, es @ es2, as2))))"
  by pat_completeness auto
termination
  by (relation "measures [\<lambda>(s, pc, buf, as). length as, \<lambda>(s, pc, buf, as). sock_rank pc]")
    (auto simp: write_step_def split: if_splits)

declare read_alone.simps [simp del] write_alone.simps [simp del]

lemmas read_alone_steps =
  read_alone.simps [where pc = S_Status] read_alone.simps [where pc = S_Reset]
  read_alone.simps [where pc = S_Descr] read_alone.simps [where pc = S_Recv]
  read_alone.simps [where pc = "S_Set st" for st] read_alone.simps [where pc = S_Close_Reset]
  read_alone.simps [where pc = S_Close_Test] read_alone.simps [where pc = S_Close_Call]
  read_alone.simps [where pc = S_Close_Forget] read_alone.simps [where pc = S_Close_Status]
  read_alone.simps [where pc = S_Descr_Error] read_alone.simps [where pc = "S_Return r" for r]

lemmas write_alone_steps =
  write_alone.simps [where pc = S_Status] write_alone.simps [where pc = S_Reset]
  write_alone.simps [where pc = S_Descr] write_alone.simps [where pc = "S_Loop k" for k]
  write_alone.simps [where pc = "S_Send k" for k] write_alone.simps [where pc = "S_Set st" for st]
  write_alone.simps [where pc = S_Close_Reset] write_alone.simps [where pc = S_Close_Test]
  write_alone.simps [where pc = S_Close_Call] write_alone.simps [where pc = S_Close_Forget]
  write_alone.simps [where pc = S_Close_Status] write_alone.simps [where pc = S_Descr_Error]
  write_alone.simps [where pc = "S_Return r" for r]

text \<open>\<open>close_descriptor\<close>, from the assignment before it to its end.\<close>

lemma close_alone:
  "read_alone s (S_Set st) buf ans =
     (case TCPSocket_close_descriptor (s\<lparr>ts_m_status := st\<rparr>) of (s', es) \<Rightarrow> Inr (-1, s', buf, es))"
  "write_alone s (S_Set st) buf as =
     (case TCPSocket_close_descriptor (s\<lparr>ts_m_status := st\<rparr>) of (s', es) \<Rightarrow> Some (-1, s', buf, es, as))"
  by (simp_all add: read_alone_steps write_alone_steps read_step_def write_step_def
      TCPSocket_close_descriptor_def TCPSocket_reset_status_def Let_def)

lemma loop_alone: "write_alone s (S_Loop k) buf as = TCPSocket_send_loop s buf k as"
proof (induction as arbitrary: k)
  case Nil
  then show ?case by (simp add: write_alone_steps write_step_def)
next
  case (Cons a as)
  show ?case
  proof (cases a)
    case (Sent n)
    then show ?thesis
      by (subst write_alone_steps(4))
        (simp add: write_alone_steps(5,13) write_step_def Cons split: option.splits prod.splits)
  next
    case (Send_error e)
    then show ?thesis
      by (simp add: write_alone_steps(4,5,13) write_step_def close_alone split: prod.splits)
  qed
qed

lemma write_alone_write: "write_alone s S_Status buf as = TCPSocket_write s buf as"
  by (simp add: write_alone_steps(1-3,12,13) write_step_def loop_alone TCPSocket_write_def Let_def
      split: option.splits prod.splits)

lemma read_alone_read: "read_alone s S_Status (SizedArray_resize (SizedArray_clear buf) 0) ans = TCPSocket_read s buf ans"
proof (cases ans)
  case (Recv_error e)
  then show ?thesis
    by (simp add: read_alone_steps(1-4,11,12) read_step_def close_alone TCPSocket_read_def Let_def split: prod.splits)
next
  case (Received bs)
  let ?buf = "SizedArray_resize (SizedArray_clear buf) 0"
  from Received show ?thesis
    by (cases "copy_to_front bs ?buf")
      (simp_all add: read_alone_steps(1-4,11,12) read_step_def close_alone TCPSocket_read_def Let_def split: prod.splits)
qed

subsection \<open>Two threads on one socket\<close>

text \<open>
  One thread calls \<open>read\<close>, the other \<open>write\<close>, as the threads of a worker do, one call after the other and with
  any arrays; a run begins with their first calls. Beside the program counters and the arrays, a run holds what the current or last call was
  given and has done: the arrays at its start, the answers it got, and the requests \<open>write\<close> made.
\<close>

record sock_run =
  sk_socket :: tcp_socket
  sk_rpc :: sock_pc
  sk_rarr :: "u8 sized_array"
  sk_rbuf :: "u8 sized_array"
  sk_rans :: recv_answer
  sk_wpc :: sock_pc
  sk_warr :: "u8 sized_array"
  sk_wbuf :: "u8 sized_array"
  sk_was :: "send_answer list"
  sk_wes :: "os_event list"

definition sock_begin :: "tcp_socket \<Rightarrow> u8 sized_array \<Rightarrow> u8 sized_array \<Rightarrow> sock_run" where
  "sock_begin s rbuf wbuf = \<lparr>sk_socket = s, sk_rpc = S_Status, sk_rarr = SizedArray_resize (SizedArray_clear rbuf) 0,
     sk_rbuf = rbuf, sk_rans = Received [], sk_wpc = S_Status, sk_warr = wbuf, sk_wbuf = wbuf, sk_was = [],
     sk_wes = []\<rparr>"

definition read_call :: "u8 sized_array \<Rightarrow> sock_run \<Rightarrow> sock_run" where
  "read_call buf st = st\<lparr>sk_rbuf := buf, sk_rarr := SizedArray_resize (SizedArray_clear buf) 0, sk_rpc := S_Status\<rparr>"

definition write_call :: "u8 sized_array \<Rightarrow> sock_run \<Rightarrow> sock_run" where
  "write_call buf st = st\<lparr>sk_wbuf := buf, sk_warr := buf, sk_wpc := S_Status, sk_was := [], sk_wes := []\<rparr>"

definition returned :: "sock_pc \<Rightarrow> bool" where
  "returned pc \<longleftrightarrow> (\<exists>r. pc = S_Return r)"

definition reader_step :: "sock_run \<Rightarrow> recv_answer \<Rightarrow> (sock_run \<times> os_event list) result" where
  "reader_step st ans =
     rbind (read_step (sk_socket st) (sk_rpc st) (sk_rarr st) ans) (\<lambda>(pc, s, buf, es).
       Inr (st\<lparr>sk_socket := s, sk_rpc := pc, sk_rarr := buf,
               sk_rans := (if sk_rpc st = S_Recv then ans else sk_rans st)\<rparr>, es))"

definition writer_step :: "sock_run \<Rightarrow> send_answer \<Rightarrow> sock_run \<times> os_event list" where
  "writer_step st ans =
     (case write_step (sk_socket st) (sk_wpc st) (sk_warr st) ans of (pc, s, buf, es) \<Rightarrow>
        (st\<lparr>sk_socket := s, sk_wpc := pc, sk_warr := buf,
            sk_was := (case sk_wpc st of S_Send k \<Rightarrow> sk_was st @ [ans] | _ \<Rightarrow> sk_was st),
            sk_wes := sk_wes st @ es\<rparr>, es))"

text \<open>
  All interleavings, with the requests to the kernel in their order. \<open>rok\<close> and \<open>wok\<close> say which answers the
  kernel can give.
\<close>

inductive sock_steps ::
  "(recv_answer \<Rightarrow> bool) \<Rightarrow> (send_answer \<Rightarrow> bool) \<Rightarrow> tcp_socket \<Rightarrow> sock_run \<Rightarrow> os_event list \<Rightarrow> bool"
  for rok wok s0 where
  sk_start: "sock_steps rok wok s0 (sock_begin s0 rbuf wbuf) []"
| sk_read_call: "sock_steps rok wok s0 st es \<Longrightarrow> returned (sk_rpc st) \<Longrightarrow>
    sock_steps rok wok s0 (read_call buf st) es"
| sk_read_step: "sock_steps rok wok s0 st es \<Longrightarrow> \<not> returned (sk_rpc st) \<Longrightarrow> rok ra \<Longrightarrow>
    reader_step st ra = Inr (st', es') \<Longrightarrow> sock_steps rok wok s0 st' (es @ es')"
| sk_write_call: "sock_steps rok wok s0 st es \<Longrightarrow> returned (sk_wpc st) \<Longrightarrow>
    sock_steps rok wok s0 (write_call buf st) es"
| sk_write_step: "sock_steps rok wok s0 st es \<Longrightarrow> \<not> returned (sk_wpc st) \<Longrightarrow> wok wa \<Longrightarrow>
    writer_step st wa = (st', es') \<Longrightarrow> sock_steps rok wok s0 st' (es @ es')"

text \<open>Answers that end the connection.\<close>

definition recv_fails :: "recv_answer \<Rightarrow> bool" where
  "recv_fails ans = (case ans of Received bs \<Rightarrow> bs = [] | Recv_error e \<Rightarrow> e \<noteq> EAGAIN \<and> e \<noteq> EINTR)"

definition send_fails :: "send_answer \<Rightarrow> bool" where
  "send_fails ans = (case ans of Sent n \<Rightarrow> False | Send_error e \<Rightarrow> e \<noteq> EAGAIN \<and> e \<noteq> ENOBUFS)"

subsection \<open>Calls are atomic until one fails\<close>

text \<open>What a thread has done of its call, and what it would still do alone, make up the call.\<close>

definition after_events :: "os_event list \<Rightarrow> write_result option \<Rightarrow> write_result option" where
  "after_events es res = Option.bind res (\<lambda>(r, s, buf, es2, as). Some (r, s, buf, es @ es2, as))"

lemma after_events_simps [simp]:
  "after_events [] res = res" "after_events es (after_events es' res) = after_events (es @ es') res"
  "after_events es (Some (r, s, buf, es2, as)) = Some (r, s, buf, es @ es2, as)"
  by (cases res; auto simp: after_events_def)+

lemma write_alone_after:
  assumes "write_step s pc buf a = (pc', s', buf', es)" and "\<not> returned pc" and "pc \<noteq> S_Recv"
  shows "write_alone s pc buf ((case pc of S_Send k \<Rightarrow> [a] | _ \<Rightarrow> []) @ rest) = after_events es (write_alone s' pc' buf' rest)"
proof (cases "\<exists>k. pc = S_Send k")
  case True
  with assms(1) show ?thesis by (auto simp: write_alone_steps(5) after_events_def)
next
  case False
  then have "write_step s pc buf (Sent 0) = write_step s pc buf a"
    by (cases pc) (simp_all add: write_step_def)
  with assms False show ?thesis
    by (subst write_alone.simps) (cases pc; simp add: after_events_def returned_def)
qed

text \<open>While no answer ends the connection, the socket does not change.\<close>

definition before_call :: "sock_pc \<Rightarrow> bool" where
  "before_call pc \<longleftrightarrow> pc = S_Status \<or> pc = S_Reset \<or> pc = S_Descr"

definition calm_inv :: "tcp_socket \<Rightarrow> sock_run \<Rightarrow> os_event list \<Rightarrow> bool" where
  "calm_inv s st es \<longleftrightarrow> sk_socket st = s \<and> (\<forall>d. closes d es = 0)
     \<and> ((before_call (sk_rpc st) \<or> sk_rpc st = S_Recv)
           \<and> sk_rarr st = SizedArray_resize (SizedArray_clear (sk_rbuf st)) 0
        \<or> (\<exists>r. sk_rpc st = S_Return r \<and> TCPSocket_read s (sk_rbuf st) (sk_rans st) = Inr (r, s, sk_rarr st, [])))
     \<and> (before_call (sk_wpc st) \<or> (\<exists>k. sk_wpc st = S_Loop k \<or> sk_wpc st = S_Send k) \<or> returned (sk_wpc st))
     \<and> (\<forall>rest. TCPSocket_write s (sk_wbuf st) (sk_was st @ rest)
           = after_events (sk_wes st) (write_alone s (sk_wpc st) (sk_warr st) rest))"

lemma calm_reader:
  assumes ok_open: "ts_m_status s = TCPSOCKET_OK" "ts_m_descr s > 0"
    and inv: "calm_inv s st es" and run: "\<not> returned (sk_rpc st)" and ok: "\<not> recv_fails ans"
    and step: "reader_step st ans = Inr (st', es')"
  shows "calm_inv s st' (es @ es')"
proof -
  have reset: "TCPSocket_reset_status s = s" using ok_open(1) by (simp add: op_defs)
  let ?buf = "SizedArray_resize (SizedArray_clear (sk_rbuf st)) 0"
  from inv run have pc: "sk_rpc st = S_Status \<or> sk_rpc st = S_Reset \<or> sk_rpc st = S_Descr \<or> sk_rpc st = S_Recv"
    and arr: "sk_rarr st = ?buf" "sk_socket st = s"
    by (auto simp: calm_inv_def before_call_def returned_def)
  show ?thesis
  proof (cases "sk_rpc st = S_Recv")
    case False
    with pc inv step reset ok_open arr show ?thesis
      by (auto simp: calm_inv_def reader_step_def read_step_def before_call_def)
  next
    case True
    from step True arr obtain pc' s' buf' where
      rd: "read_step s S_Recv ?buf ans = Inr (pc', s', buf', es')" and
      st': "st' = st\<lparr>sk_socket := s', sk_rpc := pc', sk_rarr := buf', sk_rans := ans\<rparr>"
      by (auto simp: reader_step_def rbind_eq_Inr)
    from rd ok obtain r where r: "pc' = S_Return r" "s' = s" "es' = []"
      by (auto simp: read_step_def recv_fails_def rbind_eq_Inr split: recv_answer.splits if_splits)
    have "read_alone s S_Status ?buf ans = read_alone s S_Recv ?buf ans"
      using ok_open reset by (simp add: read_alone_steps(1-3) read_step_def split: sum.splits prod.splits)
    also have "\<dots> = Inr (r, s, buf', [])" using rd r by (simp add: read_alone_steps(4,12))
    finally have "TCPSocket_read s (sk_rbuf st) ans = Inr (r, s, buf', [])" by (simp add: read_alone_read)
    with inv r show ?thesis by (simp add: calm_inv_def st')
  qed
qed

lemma calm_writer:
  assumes ok_open: "ts_m_status s = TCPSOCKET_OK" "ts_m_descr s > 0"
    and inv: "calm_inv s st es" and run: "\<not> returned (sk_wpc st)" and ok: "\<not> send_fails ans"
    and step: "writer_step st ans = (st', es')"
  shows "calm_inv s st' (es @ es')"
proof -
  have reset: "TCPSocket_reset_status s = s" using ok_open(1) by (simp add: op_defs)
  from inv have sk: "sk_socket st = s" by (simp add: calm_inv_def)
  from step sk obtain pc' s' buf' where wr: "write_step s (sk_wpc st) (sk_warr st) ans = (pc', s', buf', es')"
    and st': "st' = st\<lparr>sk_socket := s', sk_wpc := pc', sk_warr := buf',
       sk_was := (case sk_wpc st of S_Send k \<Rightarrow> sk_was st @ [ans] | _ \<Rightarrow> sk_was st), sk_wes := sk_wes st @ es'\<rparr>"
    by (auto simp: writer_step_def split: prod.splits)
  from inv run have "before_call (sk_wpc st) \<or> (\<exists>k. sk_wpc st = S_Loop k \<or> sk_wpc st = S_Send k)"
    by (simp add: calm_inv_def)
  then have nx: "s' = s" "before_call pc' \<or> (\<exists>k. pc' = S_Loop k \<or> pc' = S_Send k) \<or> returned pc'"
      "\<forall>d. closes d es' = 0" "sk_wpc st \<noteq> S_Recv"
    using wr ok ok_open reset
    by (auto simp: before_call_def write_step_def send_fails_def returned_def split: send_answer.splits if_splits)
  have "TCPSocket_write s (sk_wbuf st) (sk_was st' @ rest)
      = after_events (sk_wes st') (write_alone s pc' buf' rest)" for rest
  proof -
    let ?used = "case sk_wpc st of S_Send k \<Rightarrow> [ans] | _ \<Rightarrow> []"
    have "sk_was st' @ rest = sk_was st @ ?used @ rest" by (simp add: st' split: sock_pc.splits)
    then have "TCPSocket_write s (sk_wbuf st) (sk_was st' @ rest)
        = after_events (sk_wes st) (write_alone s (sk_wpc st) (sk_warr st) (?used @ rest))"
      using inv by (simp add: calm_inv_def)
    also have "\<dots> = after_events (sk_wes st') (write_alone s pc' buf' rest)"
      using write_alone_after [OF wr run nx(4), of rest] nx(1) by (simp add: st')
    finally show ?thesis .
  qed
  with inv nx show ?thesis by (simp add: calm_inv_def st')
qed

lemma steps_calm_inv:
  assumes "sock_steps rok wok s st es" and "ts_m_status s = TCPSOCKET_OK" and "ts_m_descr s > 0"
    and "\<forall>a. rok a \<longrightarrow> \<not> recv_fails a" and "\<forall>a. wok a \<longrightarrow> \<not> send_fails a"
  shows "calm_inv s st es"
  using assms(1)
proof (induction rule: sock_steps.induct)
  case (sk_start rbuf wbuf)
  then show ?case by (simp add: calm_inv_def sock_begin_def before_call_def write_alone_write)
next
  case (sk_read_call st es buf)
  then show ?case by (simp add: calm_inv_def read_call_def before_call_def)
next
  case (sk_read_step st es ra st' es')
  then show ?case using calm_reader [OF assms(2,3)] assms(4) by blast
next
  case (sk_write_call st es buf)
  then show ?case by (simp add: calm_inv_def write_call_def before_call_def write_alone_write)
next
  case (sk_write_step st es wa st' es')
  then show ?case using calm_writer [OF assms(2,3)] assms(5) by blast
qed

subsection \<open>Closing the descriptor\<close>

text \<open>Where a call is inside \<open>close_descriptor\<close> or about to enter it, and where it will still set the status.\<close>

fun closing :: "sock_pc \<Rightarrow> bool" where
  "closing (S_Set st) = True"
| "closing S_Close_Reset = True"
| "closing S_Close_Test = True"
| "closing S_Close_Call = True"
| "closing S_Close_Forget = True"
| "closing pc = False"

fun settling :: "sock_pc \<Rightarrow> bool" where
  "settling S_Descr = True"
| "settling S_Close_Status = True"
| "settling S_Descr_Error = True"
| "settling pc = closing pc"

fun forgets :: "sock_pc \<Rightarrow> nat" where
  "forgets S_Close_Forget = 1"
| "forgets pc = 0"

text \<open>
  What holds of one call and of the two together. \<open>i\<close> and \<open>j\<close> are 1 when the first and the second thread can
  fail, and 0 otherwise. While the descriptor is there, it was closed by the calls that are about to forget
  it; once it is forgotten, nobody closes it any more.
\<close>

fun call_ok :: "int \<Rightarrow> nat \<Rightarrow> tcp_socket \<Rightarrow> sock_pc \<Rightarrow> bool" where
  "call_ok d i s (S_Set st) = (i = 1 \<and> (st = TCPSOCKET_CLOSED \<or> st = TCPSCOKET_CLOSED_BY_PEER))"
| "call_ok d i s S_Close_Status = (ts_m_descr s = -1)"
| "call_ok d i s S_Descr_Error = (ts_m_descr s = -1)"
| "call_ok d i s pc = (closing pc \<longrightarrow> i = 1)"

definition count_ok :: "int \<Rightarrow> nat \<Rightarrow> nat \<Rightarrow> tcp_socket \<Rightarrow> nat \<Rightarrow> nat \<Rightarrow> os_event list \<Rightarrow> bool" where
  "count_ok d i j s m n es \<longleftrightarrow> m \<le> i \<and> n \<le> j \<and> (\<forall>k > 0. k \<noteq> d \<longrightarrow> closes k es = 0)
     \<and> (ts_m_descr s = d \<and> closes d es = m + n \<or> ts_m_descr s = -1 \<and> 1 \<le> closes d es \<and> closes d es \<le> i + j)"

definition status_ok :: "int \<Rightarrow> tcp_socket \<Rightarrow> sock_pc \<Rightarrow> sock_pc \<Rightarrow> bool" where
  "status_ok d s p q \<longleftrightarrow>
     (if ts_m_descr s = d then ts_m_status s = TCPSOCKET_OK \<or> closing p \<or> closing q
      else ts_m_status s = TCPSOCKET_CLOSED \<or> ts_m_status s = TCPSOCKET_DESCRIPTOR_ERROR \<or> settling p \<or> settling q)"

definition close_inv :: "int \<Rightarrow> nat \<Rightarrow> nat \<Rightarrow> tcp_socket \<Rightarrow> sock_pc \<Rightarrow> sock_pc \<Rightarrow> os_event list \<Rightarrow> bool" where
  "close_inv d i j s p q es \<longleftrightarrow> call_ok d i s p \<and> call_ok d j s q
     \<and> count_ok d i j s (forgets p) (forgets q) es \<and> status_ok d s p q"

lemma close_inv_swap: "close_inv d i j s p q es \<longleftrightarrow> close_inv d j i s q p es"
  unfolding close_inv_def count_ok_def status_ok_def by (simp add: add.commute) argo

lemma call_ok_kept:
  assumes "call_ok d j s q" and "ts_m_descr s' = ts_m_descr s \<or> ts_m_descr s' = -1"
  shows "call_ok d j s' q"
  using assms by (cases q) auto

lemma close_inv_sock_step:
  assumes "d > 0" and "close_inv d i j s p q es" and "sock_step entry s p = (p', s', es')"
    and "entry = S_Recv \<or> entry = S_Loop 0" and "\<not> returned p"
  shows "close_inv d i j s' p' q (es @ es')"
proof -
  from assms(2) have inv: "call_ok d i s p" "call_ok d j s q" "count_ok d i j s (forgets p) (forgets q) es"
    "status_ok d s p q" by (simp_all add: close_inv_def)
  have descr: "ts_m_descr s = d \<or> ts_m_descr s = -1" using inv(3) by (auto simp: count_ok_def)
  have "ts_m_descr s' = ts_m_descr s \<or> ts_m_descr s' = -1"
    using assms(3) by (cases p) (auto simp: op_defs)
  then have "call_ok d j s' q" using inv(2) call_ok_kept by blast
  moreover have "call_ok d i s' p'"
    using assms(1,3,4) inv(1) descr by (cases p) (auto simp: op_defs split: if_splits)
  moreover have "count_ok d i j s' (forgets p') (forgets q) (es @ es')"
    using assms(1,3,4) inv(1,3) by (cases p) (auto simp: count_ok_def op_defs split: if_splits)
  moreover have "status_ok d s' p' q"
    using assms(1,3,4) inv(1,4) descr by (cases p) (auto simp: status_ok_def op_defs split: if_splits)
  ultimately show ?thesis by (simp add: close_inv_def)
qed

lemma close_inv_recv:
  assumes inv: "close_inv d i j s S_Recv q es" and step: "read_step s S_Recv buf ans = Inr (p', s', buf', es')"
    and i: "recv_fails ans \<Longrightarrow> i = 1"
  shows "close_inv d i j s' p' q (es @ es')"
proof -
  from step i have *: "s' = s" "es' = []" "p' = S_Set TCPSOCKET_CLOSED \<and> i = 1
      \<or> p' = S_Set TCPSCOKET_CLOSED_BY_PEER \<and> i = 1 \<or> returned p'"
    by (auto simp: read_step_def recv_fails_def returned_def rbind_eq_Inr split: recv_answer.splits if_splits)
  with inv show ?thesis
    by (auto simp: close_inv_def count_ok_def status_ok_def returned_def)
qed

lemma close_inv_send:
  assumes inv: "close_inv d j i s p q es" and pc: "p = S_Loop k \<or> p = S_Send k"
    and step: "write_step s p buf ans = (p', s', buf', es')" and j: "send_fails ans \<Longrightarrow> j = 1"
  shows "close_inv d j i s' p' q (es @ es')"
proof -
  from step pc j have *: "s' = s" "\<forall>k. closes k es' = 0"
    "p' = S_Set TCPSOCKET_CLOSED \<and> j = 1 \<or> (\<exists>k. p' = S_Loop k \<or> p' = S_Send k) \<or> returned p'"
    by (auto simp: write_step_def send_fails_def returned_def split: send_answer.splits if_splits)
  with inv pc show ?thesis
    by (auto simp: close_inv_def count_ok_def status_ok_def returned_def)
qed

lemma close_inv_begin:
  assumes "close_inv d i j s p q es" and "returned p"
  shows "close_inv d i j s S_Status q es"
  using assms by (auto simp: close_inv_def count_ok_def status_ok_def returned_def)

lemma read_step_other:
  "pc \<noteq> S_Recv \<Longrightarrow> read_step s pc buf ans = (case sock_step S_Recv s pc of (pc', s', es) \<Rightarrow> Inr (pc', s', buf, es))"
  by (cases pc) (simp_all add: read_step_def)

lemma write_step_other:
  "\<not> (\<exists>k. pc = S_Loop k \<or> pc = S_Send k)
    \<Longrightarrow> write_step s pc buf ans = (case sock_step (S_Loop 0) s pc of (pc', s', es) \<Rightarrow> (pc', s', buf, es))"
  by (cases pc) (simp_all add: write_step_def)

lemma reader_close_inv:
  assumes "d > 0" and inv: "close_inv d i j (sk_socket st) (sk_rpc st) (sk_wpc st) es"
    and run: "\<not> returned (sk_rpc st)" and step: "reader_step st ans = Inr (st', es')"
    and i: "recv_fails ans \<Longrightarrow> i = 1"
  shows "close_inv d i j (sk_socket st') (sk_rpc st') (sk_wpc st') (es @ es')"
proof -
  from step obtain p' s' buf' where
    rd: "read_step (sk_socket st) (sk_rpc st) (sk_rarr st) ans = Inr (p', s', buf', es')" and
    st': "sk_socket st' = s'" "sk_rpc st' = p'" "sk_wpc st' = sk_wpc st"
    by (auto simp: reader_step_def rbind_eq_Inr)
  show ?thesis
  proof (cases "sk_rpc st = S_Recv")
    case True
    with inv rd i show ?thesis unfolding st' by (auto intro: close_inv_recv)
  next
    case False
    with rd have "sock_step S_Recv (sk_socket st) (sk_rpc st) = (p', s', es')"
      by (auto simp: read_step_other split: prod.splits)
    with close_inv_sock_step [OF assms(1) inv this] run show ?thesis unfolding st' by simp
  qed
qed

lemma writer_close_inv:
  assumes "d > 0" and inv: "close_inv d i j (sk_socket st) (sk_rpc st) (sk_wpc st) es"
    and run: "\<not> returned (sk_wpc st)" and step: "writer_step st ans = (st', es')"
    and j: "send_fails ans \<Longrightarrow> j = 1"
  shows "close_inv d i j (sk_socket st') (sk_rpc st') (sk_wpc st') (es @ es')"
proof -
  note inv' = inv [unfolded close_inv_swap [of d i]]
  from step obtain p' s' buf' where
    wr: "write_step (sk_socket st) (sk_wpc st) (sk_warr st) ans = (p', s', buf', es')" and
    st': "sk_socket st' = s'" "sk_wpc st' = p'" "sk_rpc st' = sk_rpc st"
    by (auto simp: writer_step_def split: prod.splits)
  have "close_inv d j i s' p' (sk_rpc st) (es @ es')"
  proof (cases "\<exists>k. sk_wpc st = S_Loop k \<or> sk_wpc st = S_Send k")
    case True
    then obtain k where "sk_wpc st = S_Loop k \<or> sk_wpc st = S_Send k" by blast
    from close_inv_send [OF inv' this wr j] show ?thesis by simp
  next
    case False
    with wr have "sock_step (S_Loop 0) (sk_socket st) (sk_wpc st) = (p', s', es')"
      by (auto simp: write_step_other split: prod.splits)
    with close_inv_sock_step [OF assms(1) inv' this] run show ?thesis by simp
  qed
  then show ?thesis unfolding st' by (subst close_inv_swap)
qed

lemma steps_close_inv:
  assumes "sock_steps rok wok s0 st es" and "ts_m_status s0 = TCPSOCKET_OK" and "ts_m_descr s0 = d" and "d > 0"
    and "\<forall>a. rok a \<and> recv_fails a \<longrightarrow> i = 1" and "\<forall>a. wok a \<and> send_fails a \<longrightarrow> j = 1"
  shows "close_inv d i j (sk_socket st) (sk_rpc st) (sk_wpc st) es"
  using assms(1)
proof (induction rule: sock_steps.induct)
  case (sk_start rbuf wbuf)
  with assms(2-4) show ?case by (simp add: close_inv_def count_ok_def status_ok_def sock_begin_def)
next
  case (sk_read_call st es buf)
  then show ?case by (auto simp: read_call_def intro: close_inv_begin)
next
  case (sk_read_step st es ra st' es')
  then show ?case using reader_close_inv [OF assms(4)] assms(5) by blast
next
  case (sk_write_call st es buf)
  then have "close_inv d j i (sk_socket st) (sk_wpc st) (sk_rpc st) es" by (simp add: close_inv_swap [of d i])
  with sk_write_call show ?case by (subst close_inv_swap) (auto simp: write_call_def intro: close_inv_begin)
next
  case (sk_write_step st es wa st' es')
  then show ?case using writer_close_inv [OF assms(4)] assms(6) by blast
qed

subsection \<open>Schedules\<close>

text \<open>Whose turn it is, with the kernel's answer; only the steps that ask the kernel look at it.\<close>

datatype sock_turn = Reader recv_answer | Writer send_answer

fun sock_turns :: "sock_turn list \<Rightarrow> sock_run \<Rightarrow> (sock_run \<times> os_event list) option" where
  "sock_turns [] st = Some (st, [])"
| "sock_turns (Reader a # ts) st =
     (if returned (sk_rpc st) then None
      else case reader_step st a of
             Inl f \<Rightarrow> None
           | Inr (st', es) \<Rightarrow> map_option (\<lambda>(st2, es2). (st2, es @ es2)) (sock_turns ts st'))"
| "sock_turns (Writer a # ts) st =
     (if returned (sk_wpc st) then None
      else case writer_step st a of
             (st', es) \<Rightarrow> map_option (\<lambda>(st2, es2). (st2, es @ es2)) (sock_turns ts st'))"

definition turn_allowed :: "(recv_answer \<Rightarrow> bool) \<Rightarrow> (send_answer \<Rightarrow> bool) \<Rightarrow> sock_turn \<Rightarrow> bool" where
  "turn_allowed rok wok t = (case t of Reader a \<Rightarrow> rok a | Writer a \<Rightarrow> wok a)"

lemma sock_turns_steps:
  assumes "sock_steps rok wok s0 st es" and "list_all (turn_allowed rok wok) ts" and "sock_turns ts st = Some (st', es')"
  shows "sock_steps rok wok s0 st' (es @ es')"
  using assms
proof (induction ts st arbitrary: es es' rule: sock_turns.induct)
  case (1 st)
  then show ?case by simp
next
  case (2 a ts st)
  then obtain st1 es1 es2 where one: "\<not> returned (sk_rpc st)" "rok a" "reader_step st a = Inr (st1, es1)"
    and rest: "sock_turns ts st1 = Some (st', es2)" "es' = es1 @ es2"
    by (auto simp: turn_allowed_def split: if_splits sum.splits)
  from sk_read_step [OF 2(2) one] have "sock_steps rok wok s0 st1 (es @ es1)" .
  from 2(1) [OF one(1) one(3) refl this _ rest(1)] 2(3) rest(2) show ?case by simp
next
  case (3 a ts st)
  then obtain st1 es1 es2 where one: "\<not> returned (sk_wpc st)" "wok a" "writer_step st a = (st1, es1)"
    and rest: "sock_turns ts st1 = Some (st', es2)" "es' = es1 @ es2"
    by (auto simp: turn_allowed_def split: if_splits prod.splits)
  from sk_write_step [OF 3(2) one] have "sock_steps rok wok s0 st1 (es @ es1)" .
  from 3(1) [OF one(1) one(3)[symmetric] this _ rest(1)] 3(3) rest(2) show ?case by simp
qed

lemmas turn_simps = reader_step_def writer_step_def read_step_def write_step_def returned_def turn_allowed_def
  sock_begin_def op_defs

subsection \<open>Properties\<close>

text \<open>
  The small steps are the code: a call of \<open>read\<close> whose steps nobody interrupts returns what
  \<open>TCPSocket_read\<close> returns, with the same socket, array and requests to the kernel; the same for \<open>write\<close>
  and every list of answers of the kernel, the lists too short for the call included.
\<close>

theorem TCPSocket_calls_alone:
  "read_alone s S_Status (SizedArray_resize (SizedArray_clear buf) 0) ans = TCPSocket_read s buf ans
   \<and> write_alone s S_Status buf' as = TCPSocket_write s buf' as"
  by (simp add: read_alone_read write_alone_write)

text \<open>
  C8. The missing lock does no harm while the connection is up. However the steps of the two threads interleave, as
  long as no answer of the kernel ends the connection, nobody closes the descriptor, the socket does
  not change, and every call that has returned did what the call does when it runs alone: same
  value, same array, same requests.
\<close>

theorem calm_calls_are_atomic:
  assumes "sock_steps rok wok s st es" and "ts_m_status s = TCPSOCKET_OK" and "ts_m_descr s > 0"
    and "\<forall>a. rok a \<longrightarrow> \<not> recv_fails a" and "\<forall>a. wok a \<longrightarrow> \<not> send_fails a"
  shows "sk_socket st = s \<and> (\<forall>d. closes d es = 0)
    \<and> (\<forall>r. sk_rpc st = S_Return r \<longrightarrow> TCPSocket_read s (sk_rbuf st) (sk_rans st) = Inr (r, s, sk_rarr st, []))
    \<and> (\<forall>r. sk_wpc st = S_Return r \<longrightarrow>
         TCPSocket_write s (sk_wbuf st) (sk_was st) = Some (r, s, sk_warr st, sk_wes st, []))"
proof -
  have inv: "calm_inv s st es" by (rule steps_calm_inv [OF assms])
  then have "TCPSocket_write s (sk_wbuf st) (sk_was st @ []) =
      after_events (sk_wes st) (write_alone s (sk_wpc st) (sk_warr st) [])"
    unfolding calm_inv_def by blast
  with inv show ?thesis by (auto simp: calm_inv_def before_call_def write_alone_steps(13))
qed

text \<open>The writer sends three bytes in two parts, the reader gets one byte in between.\<close>

definition demo_turns :: "sock_turn list" where
  "demo_turns =
     (let R = Reader (Received [7])
      in [Writer (Sent 0), R, Writer (Sent 0), R, Writer (Sent 0), R, Writer (Sent 0), Writer (Sent 2), R,
          Writer (Sent 0), Writer (Sent 1), Writer (Sent 0)])"

lemma calm_calls_are_atomic_witness:
  "\<exists>st. sock_steps (\<lambda>a. a = Received [7]) (\<lambda>a. \<exists>n. a = Sent n) demo_socket st [Ev_Send 5 [1, 2], Ev_Send 5 [3]]
     \<and> TCPSocket_write demo_socket demo_array [Sent 2, Sent 1]
         = Some (3, demo_socket, sk_warr st, [Ev_Send 5 [1, 2], Ev_Send 5 [3]], [])
     \<and> TCPSocket_read demo_socket demo_array (Received [7]) = Inr (1, demo_socket, sk_rarr st, [])"
proof -
  let ?r = "\<lambda>a. a = Received [7]" and ?w = "\<lambda>a. \<exists>n. a = Sent n"
  have "\<exists>st. sock_turns demo_turns (sock_begin demo_socket demo_array demo_array)
        = Some (st, [Ev_Send 5 [1, 2], Ev_Send 5 [3]])
      \<and> sk_rbuf st = demo_array \<and> sk_wbuf st = demo_array \<and> sk_rans st = Received [7] \<and> sk_was st = [Sent 2, Sent 1]
      \<and> sk_wes st = [Ev_Send 5 [1, 2], Ev_Send 5 [3]] \<and> sk_rpc st = S_Return 1 \<and> sk_wpc st = S_Return 3"
    by (simp add: demo_turns_def turn_simps Let_def demo_array_def copy_to_front_def sa_data_def
        NETSOCKET_ARRAY_SIZE_def)
  then obtain st where run: "sock_turns demo_turns (sock_begin demo_socket demo_array demo_array)
        = Some (st, [Ev_Send 5 [1, 2], Ev_Send 5 [3]])"
    and st: "sk_rbuf st = demo_array" "sk_wbuf st = demo_array" "sk_rans st = Received [7]"
      "sk_was st = [Sent 2, Sent 1]" "sk_wes st = [Ev_Send 5 [1, 2], Ev_Send 5 [3]]" "sk_rpc st = S_Return 1"
      "sk_wpc st = S_Return 3" by blast
  have "list_all (turn_allowed ?r ?w) demo_turns" by (simp add: demo_turns_def turn_allowed_def Let_def)
  from sock_turns_steps [OF sk_start this run]
  have steps: "sock_steps ?r ?w demo_socket st [Ev_Send 5 [1, 2], Ev_Send 5 [3]]" by simp
  have "\<forall>a. ?r a \<longrightarrow> \<not> recv_fails a" "\<forall>a. ?w a \<longrightarrow> \<not> send_fails a" by (auto simp: recv_fails_def send_fails_def)
  from calm_calls_are_atomic [OF steps _ _ this] steps st show ?thesis by auto
qed

text \<open>
  C9. How often the descriptor is closed when connections do end. Whatever the kernel answers and however the
  steps interleave, the descriptor is closed at most once for every thread to which the kernel can
  report an end of the connection, no other descriptor is ever closed, and when both calls have
  returned the socket is either as it was or has forgotten the descriptor, with a status that makes every later call fail.
\<close>

theorem racing_closes_bounded:
  assumes "sock_steps rok wok s st es" and "ts_m_status s = TCPSOCKET_OK" and "ts_m_descr s = d" and "d > 0"
  shows "closes d es \<le> of_bool (\<exists>a. rok a \<and> recv_fails a) + of_bool (\<exists>a. wok a \<and> send_fails a)
    \<and> (\<forall>k > 0. k \<noteq> d \<longrightarrow> closes k es = 0)
    \<and> (returned (sk_rpc st) \<and> returned (sk_wpc st) \<longrightarrow>
         ts_m_descr (sk_socket st) = d \<and> ts_m_status (sk_socket st) = TCPSOCKET_OK \<and> closes d es = 0
         \<or> ts_m_descr (sk_socket st) = -1 \<and> 1 \<le> closes d es
           \<and> (ts_m_status (sk_socket st) = TCPSOCKET_CLOSED
              \<or> ts_m_status (sk_socket st) = TCPSOCKET_DESCRIPTOR_ERROR))"
proof -
  let ?i = "of_bool (\<exists>a. rok a \<and> recv_fails a) :: nat" and ?j = "of_bool (\<exists>a. wok a \<and> send_fails a) :: nat"
  have "close_inv d ?i ?j (sk_socket st) (sk_rpc st) (sk_wpc st) es"
    by (rule steps_close_inv [OF assms]) auto
  then have "count_ok d ?i ?j (sk_socket st) (forgets (sk_rpc st)) (forgets (sk_wpc st)) es"
    and "status_ok d (sk_socket st) (sk_rpc st) (sk_wpc st)" by (simp_all add: close_inv_def)
  moreover from calculation(1) have "closes d es \<le> ?i + ?j"
    unfolding count_ok_def using add_mono by fastforce
  ultimately show ?thesis using assms(4) unfolding count_ok_def status_ok_def returned_def by force
qed

lemma racing_closes_bounded_witness:
  "\<exists>st. sock_steps (\<lambda>a. a = Received []) (\<lambda>a. a = Sent 1) demo_socket st [Ev_Close 5]
     \<and> closes 5 [Ev_Close 5] \<le> of_bool (\<exists>a. a = Received [] \<and> recv_fails a) + of_bool (\<exists>a. a = Sent 1 \<and> send_fails a)
     \<and> ts_m_descr (sk_socket st) = -1"
proof -
  let ?r = "\<lambda>a. a = Received []" and ?w = "\<lambda>a. a = Sent 1"
  let ?ts = "replicate 10 (Reader (Received [])) @ [Writer (Sent 1)]"
  have "\<exists>st. sock_turns ?ts (sock_begin demo_socket demo_array demo_array) = Some (st, [Ev_Close 5])
      \<and> sk_rpc st = S_Return (-1) \<and> sk_wpc st = S_Return (-1)"
    by (simp add: turn_simps numeral_eq_Suc demo_array_def)
  then obtain st where run: "sock_turns ?ts (sock_begin demo_socket demo_array demo_array) = Some (st, [Ev_Close 5])"
    and pcs: "sk_rpc st = S_Return (-1)" "sk_wpc st = S_Return (-1)" by blast
  have "list_all (turn_allowed ?r ?w) ?ts" by (simp add: turn_allowed_def numeral_eq_Suc)
  from sock_turns_steps [OF sk_start this run] have steps: "sock_steps ?r ?w demo_socket st [Ev_Close 5]" by simp
  show ?thesis
    using racing_closes_bounded [OF steps, of 5] steps pcs by (auto simp: returned_def)
qed

text \<open>
  C25. And it can be closed twice. When both threads learn of the end of the connection, each may test
  \<open>m_descr\<close> before the other has overwritten it, and both close the same number; by the second time the
  kernel may have given that number to another connection. And when only the reader learns of it, the writer may
  still send on the number that has been closed.
\<close>

theorem racing_threads_close_twice:
  assumes "ts_m_status s = TCPSOCKET_OK" and "ts_m_descr s = d" and "d > 0"
    and "sa_data buf = b # bs" and "e \<noteq> EAGAIN" and "e \<noteq> ENOBUFS"
  shows "(\<exists>st. sock_steps (\<lambda>a. a = Received []) (\<lambda>a. a = Send_error e) s st [Ev_Close d, Ev_Close d]
              \<and> sk_rpc st = S_Return (-1) \<and> sk_wpc st = S_Return (-1))
       \<and> (\<exists>st. sock_steps (\<lambda>a. a = Received []) (\<lambda>a. a = Sent 1) s st [Ev_Close d, Ev_Send d [b]])"
proof -
  let ?rok = "\<lambda>a. a = Received []" and ?R = "Reader (Received [])" and ?init = "sock_begin s demo_array buf"
  let ?both = "replicate 7 ?R @ replicate 9 (Writer (Send_error e)) @ replicate 3 ?R @ replicate 2 (Writer (Send_error e))"
  let ?one = "replicate 7 ?R @ replicate 4 (Writer (Sent 1)) @ [?R, Writer (Sent 1)]"
  have size: "SizedArray_data_size buf > 0" using assms(4) by (cases "sa_m_data_size buf") (simp_all add: sa_data_def op_defs)
  have "\<exists>st. sock_turns ?both ?init = Some (st, [Ev_Close d, Ev_Close d])
      \<and> sk_rpc st = S_Return (-1) \<and> sk_wpc st = S_Return (-1)"
    using assms size by (simp add: turn_simps numeral_eq_Suc demo_array_def)
  then obtain st where both: "sock_turns ?both ?init = Some (st, [Ev_Close d, Ev_Close d])"
    and pcs: "sk_rpc st = S_Return (-1)" "sk_wpc st = S_Return (-1)" by blast
  have "\<exists>st. sock_turns ?one ?init = Some (st, [Ev_Close d, Ev_Send d [b]])"
    using assms size by (simp add: turn_simps numeral_eq_Suc demo_array_def)
  then obtain st' where one: "sock_turns ?one ?init = Some (st', [Ev_Close d, Ev_Send d [b]])" by blast
  have "list_all (turn_allowed ?rok (\<lambda>a. a = Send_error e)) ?both" "list_all (turn_allowed ?rok (\<lambda>a. a = Sent 1)) ?one"
    by (simp_all add: turn_allowed_def numeral_eq_Suc)
  from sock_turns_steps [OF sk_start this(1) both] sock_turns_steps [OF sk_start this(2) one] pcs
  show ?thesis by auto
qed

lemma racing_threads_close_twice_witness:
  "(\<exists>st. sock_steps (\<lambda>a. a = Received []) (\<lambda>a. a = Send_error (EOTHER 32)) demo_socket st [Ev_Close 5, Ev_Close 5]
        \<and> sk_rpc st = S_Return (-1) \<and> sk_wpc st = S_Return (-1))
   \<and> (\<exists>st. sock_steps (\<lambda>a. a = Received []) (\<lambda>a. a = Sent 1) demo_socket st [Ev_Close 5, Ev_Send 5 [1]])"
  using racing_threads_close_twice [of demo_socket 5 demo_array 1 "[2, 3]" "EOTHER 32"] by simp

end
