(* ===== verification/Statistics_Threads.thy ===== *)
theory Statistics_Threads
  imports Connection_Worker
begin

text \<open>
  The statistics of a worker under its threads. The reading thread calls \<open>add_recv\<close>, the writing thread
  \<open>add_sent\<close> and a user \<open>get_connection_statistics\<close>, on one struct of plain integers and without a lock. Here the
  three functions are machines whose steps are the single loads and stores of a member.
\<close>

subsection \<open>The steps\<close>

text \<open>
  \<open>x += count\<close> loads \<open>x\<close> and then stores the sum. The counters hold \<open>count\<close> and, after a load, what was loaded.
\<close>

datatype add_pc = A_Idle | A_Load_Total u64 | A_Store_Total u64 u64 | A_Load_Chunk u64 | A_Store_Chunk u64 u64

fun add_recv_step :: "add_pc \<Rightarrow> connection_statistics \<Rightarrow> add_pc \<times> connection_statistics" where
  "add_recv_step A_Idle st = (A_Idle, st)"
| "add_recv_step (A_Load_Total n) st = (A_Store_Total n (total_recv_bytes st), st)"
| "add_recv_step (A_Store_Total n v) st = (A_Load_Chunk n, st\<lparr>total_recv_bytes := v + n\<rparr>)"
| "add_recv_step (A_Load_Chunk n) st = (A_Store_Chunk n (chunk_recv_bytes st), st)"
| "add_recv_step (A_Store_Chunk n v) st = (A_Idle, st\<lparr>chunk_recv_bytes := v + n\<rparr>)"

fun add_sent_step :: "add_pc \<Rightarrow> connection_statistics \<Rightarrow> add_pc \<times> connection_statistics" where
  "add_sent_step A_Idle st = (A_Idle, st)"
| "add_sent_step (A_Load_Total n) st = (A_Store_Total n (total_sent_bytes st), st)"
| "add_sent_step (A_Store_Total n v) st = (A_Load_Chunk n, st\<lparr>total_sent_bytes := v + n\<rparr>)"
| "add_sent_step (A_Load_Chunk n) st = (A_Store_Chunk n (chunk_sent_bytes st), st)"
| "add_sent_step (A_Store_Chunk n v) st = (A_Idle, st\<lparr>chunk_sent_bytes := v + n\<rparr>)"

text \<open>\<open>get_connection_statistics\<close>: the members are copied in their order, then three of them are set.\<close>

datatype query_pc =
  Q_Idle | Q_Total_Sent | Q_Total_Recv | Q_Chunk_Sent | Q_Chunk_Recv | Q_Last_Check
  | Q_Set_Time | Q_Zero_Sent | Q_Zero_Recv

fun query_step ::
  "u64 \<Rightarrow> query_pc \<Rightarrow> connection_statistics \<Rightarrow> connection_statistics
    \<Rightarrow> query_pc \<times> connection_statistics \<times> connection_statistics" where
  "query_step t Q_Idle st out = (Q_Idle, st, out)"
| "query_step t Q_Total_Sent st out = (Q_Total_Recv, st, out\<lparr>total_sent_bytes := total_sent_bytes st\<rparr>)"
| "query_step t Q_Total_Recv st out = (Q_Chunk_Sent, st, out\<lparr>total_recv_bytes := total_recv_bytes st\<rparr>)"
| "query_step t Q_Chunk_Sent st out = (Q_Chunk_Recv, st, out\<lparr>chunk_sent_bytes := chunk_sent_bytes st\<rparr>)"
| "query_step t Q_Chunk_Recv st out = (Q_Last_Check, st, out\<lparr>chunk_recv_bytes := chunk_recv_bytes st\<rparr>)"
| "query_step t Q_Last_Check st out = (Q_Set_Time, st, out\<lparr>last_check_time_msec := last_check_time_msec st\<rparr>)"
| "query_step t Q_Set_Time st out = (Q_Zero_Sent, st\<lparr>last_check_time_msec := t\<rparr>, out)"
| "query_step t Q_Zero_Sent st out = (Q_Zero_Recv, st\<lparr>chunk_sent_bytes := 0\<rparr>, out)"
| "query_step t Q_Zero_Recv st out = (Q_Idle, st\<lparr>chunk_recv_bytes := 0\<rparr>, out)"

text \<open>A call that nobody interrupts computes the function of the worker's model.\<close>

lemma steps_alone:
  "((\<lambda>(pc, st). add_recv_step pc st) ^^ 4) (A_Load_Total n, st) = (A_Idle, add_recv n st)"
  "((\<lambda>(pc, st). add_sent_step pc st) ^^ 4) (A_Load_Total n, st) = (A_Idle, add_sent n st)"
  "((\<lambda>(pc, st, out). query_step t pc st out) ^^ 8) (Q_Total_Sent, cw_m_statistics w, out) =
     (case get_connection_statistics t w of (out', w') \<Rightarrow> (Q_Idle, cw_m_statistics w', out'))"
  by (simp_all add: numeral_eq_Suc add_recv_def add_sent_def get_connection_statistics_def)

subsection \<open>All interleavings\<close>

text \<open>
  The struct, the three threads, and what a run has done: the counts of the calls whose total is stored, in
  \<open>sr_recv\<close> and \<open>sr_sent\<close>, and the results of the queries.
\<close>

record stat_threads =
  sr_stats :: connection_statistics
  sr_rpc :: add_pc
  sr_wpc :: add_pc
  sr_qpc :: query_pc
  sr_time :: u64
  sr_out :: connection_statistics
  sr_recv :: "u64 list"
  sr_sent :: "u64 list"
  sr_reports :: "connection_statistics list"

definition stat_start :: stat_threads where
  "stat_start = \<lparr>sr_stats = statistics_zero, sr_rpc = A_Idle, sr_wpc = A_Idle, sr_qpc = Q_Idle, sr_time = 0,
     sr_out = statistics_zero, sr_recv = [], sr_sent = [], sr_reports = []\<rparr>"

datatype stat_turn = T_Recv u64 | T_Sent u64 | T_Query u64

fun stored :: "add_pc \<Rightarrow> u64 list" where
  "stored (A_Store_Total n v) = [n]"
| "stored pc = []"

text \<open>A turn: an idle thread begins a call with the given argument, another one makes its next step.\<close>

fun stat_turn_step :: "stat_turn \<Rightarrow> stat_threads \<Rightarrow> stat_threads" where
  "stat_turn_step (T_Recv n) s =
     (if sr_rpc s = A_Idle then s\<lparr>sr_rpc := A_Load_Total n\<rparr>
      else case add_recv_step (sr_rpc s) (sr_stats s) of (pc, st) \<Rightarrow>
        s\<lparr>sr_rpc := pc, sr_stats := st, sr_recv := sr_recv s @ stored (sr_rpc s)\<rparr>)"
| "stat_turn_step (T_Sent n) s =
     (if sr_wpc s = A_Idle then s\<lparr>sr_wpc := A_Load_Total n\<rparr>
      else case add_sent_step (sr_wpc s) (sr_stats s) of (pc, st) \<Rightarrow>
        s\<lparr>sr_wpc := pc, sr_stats := st, sr_sent := sr_sent s @ stored (sr_wpc s)\<rparr>)"
| "stat_turn_step (T_Query t) s =
     (if sr_qpc s = Q_Idle then s\<lparr>sr_qpc := Q_Total_Sent, sr_time := t\<rparr>
      else case query_step (sr_time s) (sr_qpc s) (sr_stats s) (sr_out s) of (pc, st, out) \<Rightarrow>
        s\<lparr>sr_qpc := pc, sr_stats := st, sr_out := out,
          sr_reports := sr_reports s @ (if pc = Q_Idle then [out] else [])\<rparr>)"

definition stat_turns :: "stat_turn list \<Rightarrow> stat_threads" where
  "stat_turns ts = fold stat_turn_step ts stat_start"

subsection \<open>What holds of every interleaving\<close>

text \<open>Only the reading thread stores the total of the bytes received, and only the writing thread that of the bytes sent.\<close>

definition totals_inv :: "stat_threads \<Rightarrow> bool" where
  "totals_inv s \<longleftrightarrow> total_recv_bytes (sr_stats s) = sum_list (sr_recv s)
     \<and> total_sent_bytes (sr_stats s) = sum_list (sr_sent s)
     \<and> (\<forall>n v. sr_rpc s = A_Store_Total n v \<longrightarrow> v = total_recv_bytes (sr_stats s))
     \<and> (\<forall>n v. sr_wpc s = A_Store_Total n v \<longrightarrow> v = total_sent_bytes (sr_stats s))"

lemma totals_inv_step:
  assumes "totals_inv s"
  shows "totals_inv (stat_turn_step t s)"
proof (cases t)
  case (T_Recv n)
  with assms show ?thesis by (cases "sr_rpc s") (auto simp: totals_inv_def)
next
  case (T_Sent n)
  with assms show ?thesis by (cases "sr_wpc s") (auto simp: totals_inv_def)
next
  case (T_Query n)
  with assms show ?thesis by (cases "sr_qpc s") (auto simp: totals_inv_def)
qed

lemma turns_inv: "totals_inv s \<Longrightarrow> totals_inv (fold stat_turn_step ts s)"
  by (induction ts arbitrary: s) (simp_all add: totals_inv_step)

text \<open>Reports are only added; the chunks they hold and the one not yet reported.\<close>

definition accounted :: "stat_threads \<Rightarrow> u64" where
  "accounted s = stat_sum chunk_recv_bytes (sr_reports s) + chunk_recv_bytes (sr_stats s)"

definition quiet :: "stat_threads \<Rightarrow> bool" where
  "quiet s \<longleftrightarrow> sr_rpc s = A_Idle \<and> sr_wpc s = A_Idle \<and> sr_qpc s = Q_Idle"

subsection \<open>Properties\<close>

text \<open>
  C31. Statistics under threads. However the loads and stores of the three threads interleave, the totals are
  the sums of all counts that were added: nobody else stores them. The chunks are not: bytes that arrive between the
  copy and the reset are in no report, and an addition that has loaded its chunk before the reset stores the old value
  back, so that bytes are reported twice. Both happen with three bytes received once before and once during one query.
\<close>

theorem statistics_under_threads:
  "(total_recv_bytes (sr_stats (stat_turns ts)) = sum_list (sr_recv (stat_turns ts))
      \<and> total_sent_bytes (sr_stats (stat_turns ts)) = sum_list (sr_sent (stat_turns ts)))
   \<and> (\<exists>ts. quiet (stat_turns ts) \<and> total_recv_bytes (sr_stats (stat_turns ts)) = 6 \<and> accounted (stat_turns ts) = 3)
   \<and> (\<exists>ts. quiet (stat_turns ts) \<and> total_recv_bytes (sr_stats (stat_turns ts)) = 6 \<and> accounted (stat_turns ts) = 9)"
proof (intro conjI)
  have "totals_inv stat_start" by (simp add: totals_inv_def stat_start_def statistics_zero_def)
  from turns_inv [OF this, of ts]
  show "total_recv_bytes (sr_stats (stat_turns ts)) = sum_list (sr_recv (stat_turns ts))"
    "total_sent_bytes (sr_stats (stat_turns ts)) = sum_list (sr_sent (stat_turns ts))"
    by (simp_all add: totals_inv_def stat_turns_def)
  let ?R = "\<lambda>k. replicate k (T_Recv 3)" and ?Q = "\<lambda>k. replicate k (T_Query 0)"
  have "quiet (stat_turns (?R 5 @ ?Q 5 @ ?R 5 @ ?Q 4))
      \<and> total_recv_bytes (sr_stats (stat_turns (?R 5 @ ?Q 5 @ ?R 5 @ ?Q 4))) = 6
      \<and> accounted (stat_turns (?R 5 @ ?Q 5 @ ?R 5 @ ?Q 4)) = 3"
    by (simp add: stat_turns_def stat_start_def quiet_def accounted_def stat_sum_def numeral_eq_Suc statistics_zero_def)
  then show "\<exists>ts. quiet (stat_turns ts) \<and> total_recv_bytes (sr_stats (stat_turns ts)) = 6 \<and> accounted (stat_turns ts) = 3"
    by blast
  have "quiet (stat_turns (?R 9 @ ?Q 9 @ ?R 1))
      \<and> total_recv_bytes (sr_stats (stat_turns (?R 9 @ ?Q 9 @ ?R 1))) = 6
      \<and> accounted (stat_turns (?R 9 @ ?Q 9 @ ?R 1)) = 9"
    by (simp add: stat_turns_def stat_start_def quiet_def accounted_def stat_sum_def numeral_eq_Suc statistics_zero_def)
  then show "\<exists>ts. quiet (stat_turns ts) \<and> total_recv_bytes (sr_stats (stat_turns ts)) = 6 \<and> accounted (stat_turns ts) = 9"
    by blast
qed

end
