(* ===== verification/Worker_Lifetime.thy ===== *)
theory Worker_Lifetime
  imports Socket_Workers
begin

text \<open>
  The end of a worker. The destructors of \<open>LocalSocketWorker\<close> and \<open>TCPSocketWorker\<close> have empty bodies; C++
  then destroys the member that holds the socket, and only after it the base class, whose destructor stops
  the threads and waits for them. The source of a worker is extended by these two stages: a use of the
  socket after its destruction is the fault \<open>Bad_Memory\<close>; once the base destructor runs, virtual calls
  reach the operations of the base class.
\<close>

datatype 's lifetime = Alive 's | Destroyed | Base_only

definition mortal_read ::
  "('s, 'ra, 'wa) source_ops \<Rightarrow> 's lifetime \<Rightarrow> u8 sized_array \<Rightarrow> 'ra \<Rightarrow> 's lifetime source_result" where
  "mortal_read ops l buf ans =
     (case l of
        Alive s \<Rightarrow> rbind (so_read ops s buf ans) (\<lambda>(r, s', buf', es). Inr (r, Alive s', buf', es))
      | Destroyed \<Rightarrow> Inl Bad_Memory
      | Base_only \<Rightarrow> rbind (so_read base_source () buf ()) (\<lambda>(r, _, buf', es). Inr (r, Base_only, buf', es)))"

definition mortal_write ::
  "('s, 'ra, 'wa) source_ops \<Rightarrow> 's lifetime \<Rightarrow> u8 sized_array \<Rightarrow> 'wa \<Rightarrow> 's lifetime source_result" where
  "mortal_write ops l buf ans =
     (case l of
        Alive s \<Rightarrow> rbind (so_write ops s buf ans) (\<lambda>(r, s', buf', es). Inr (r, Alive s', buf', es))
      | Destroyed \<Rightarrow> Inl Bad_Memory
      | Base_only \<Rightarrow> rbind (so_write base_source () buf ()) (\<lambda>(r, _, buf', es). Inr (r, Base_only, buf', es)))"

definition mortal_source :: "('s, 'ra, 'wa) source_ops \<Rightarrow> ('s lifetime, 'ra, 'wa) source_ops" where
  "mortal_source ops = \<lparr>so_read = mortal_read ops, so_write = mortal_write ops\<rparr>"

text \<open>The derived destructors: the requests of the socket's own destructor, if there is a socket.\<close>

definition LocalSocketWorker_dtor ::
  "local_socket option lifetime worker_run \<Rightarrow> local_socket option lifetime worker_run \<times> os_event list" where
  "LocalSocketWorker_dtor st =
     (st\<lparr>wr_source := Destroyed\<rparr>, case wr_source st of Alive (Some s) \<Rightarrow> LocalSocket_dtor s | _ \<Rightarrow> [])"

definition TCPSocketWorker_dtor ::
  "tcp_socket option lifetime worker_run \<Rightarrow> tcp_socket option lifetime worker_run \<times> os_event list" where
  "TCPSocketWorker_dtor st =
     (st\<lparr>wr_source := Destroyed\<rparr>, case wr_source st of Alive (Some s) \<Rightarrow> snd (TCPSocket_dtor s) | _ \<Rightarrow> [])"

text \<open>The start of the base destructor; \<open>waits\<close> says that it then joins the guard.\<close>

definition base_destruction :: "bool \<Rightarrow> 's lifetime worker_run \<Rightarrow> bool \<times> 's lifetime worker_run" where
  "base_destruction in_guard_thread st =
     (case ConnectionWorker_dtor in_guard_thread (wr_worker st) of
        (waits, w) \<Rightarrow> (waits, st\<lparr>wr_worker := w, wr_source := Base_only\<rparr>))"

subsection \<open>A stopped worker has no threads\<close>

definition stopped_inv :: "'s worker_run \<Rightarrow> bool" where
  "stopped_inv st \<longleftrightarrow> (cw_m_stopped (wr_worker st) \<longrightarrow> wr_rpc st = R_Done \<and> wr_wpc st = W_Done)"

lemma steps_stopped_inv:
  assumes "worker_steps ops wok st0 st tr" and "stopped_inv st0"
  shows "stopped_inv st"
  using assms
proof (induction rule: worker_steps.induct)
  case ws_start
  then show ?case by simp
next
  case (ws_reader st tr ra st' es)
  have "wr_rpc st \<noteq> R_Done" using ws_reader.hyps(2) by (auto simp: thread_read_from_source_def)
  with ws_reader reader_frame(6) [OF ws_reader.hyps(2)] show ?case by (simp add: stopped_inv_def)
next
  case (ws_writer st tr wa st' es)
  have "wr_wpc st \<noteq> W_Done" using ws_writer.hyps(3) by (auto simp: thread_write_to_source_def)
  with ws_writer writer_frame(7) [OF ws_writer.hyps(3)] show ?case by (simp add: stopped_inv_def)
next
  case (ws_guard st tr st' es)
  then show ?case by (auto simp: stopped_inv_def thread_guard_def split: if_splits)
next
  case (ws_put st tr n buf st' es)
  then show ?case by (auto simp: stopped_inv_def user_put_def rbind_eq_Inr split: option.splits)
next
  case (ws_get st tr out st' es)
  then show ?case by (auto simp: stopped_inv_def user_get_def rbind_eq_Inr split: option.splits)
next
  case (ws_stop st tr)
  then show ?case by (simp add: stopped_inv_def ConnectionWorker_stop_def)
qed

lemma ended_threads:
  "wr_rpc st = R_Done \<Longrightarrow> thread_read_from_source ops st ra = Inl Blocked"
  "wr_wpc st = W_Done \<Longrightarrow> thread_write_to_source ops st wa = Inl Blocked"
  by (simp_all add: thread_read_from_source_def thread_write_to_source_def)

lemma use_after_destruction:
  "wr_rpc st = R_Read \<Longrightarrow> thread_read_from_source (mortal_source ops) (st\<lparr>wr_source := Destroyed\<rparr>) ra = Inl Bad_Memory"
  "wr_wpc st = W_Write \<Longrightarrow> thread_write_to_source (mortal_source ops) (st\<lparr>wr_source := Destroyed\<rparr>) wa = Inl Bad_Memory"
  by (simp_all add: thread_read_from_source_def thread_write_to_source_def mortal_source_def mortal_read_def
      mortal_write_def)

lemma base_retry:
  assumes "wr_wpc st = W_Write" and "wr_source st = Base_only"
  shows "\<exists>st'. run_writer (mortal_source ops) st (replicate n wa) = Inr (st', []) \<and> wr_wpc st' = W_Write"
  using assms
proof (induction n arbitrary: st)
  case (Suc n)
  let ?st = "st\<lparr>wr_source := Base_only, wr_warr := SizedArray_clear (wr_warr st)\<rparr>"
  have "thread_write_to_source (mortal_source ops) st wa = Inr (?st, [])"
    using Suc.prems by (simp add: thread_write_to_source_def mortal_source_def mortal_write_def base_source_def Let_def)
  with Suc.IH [of ?st] Suc.prems show ?case by auto
qed simp

lemma stopped_threads_ended:
  assumes "worker_steps ops wok st0 st tr" and "\<not> cw_m_stopped (wr_worker st0)" and "cw_m_stopped (wr_worker st)"
  shows "wr_rpc st = R_Done \<and> wr_wpc st = W_Done"
  using steps_stopped_inv [OF assms(1)] assms(2,3) by (simp add: stopped_inv_def)

subsection \<open>The postmortem callback\<close>

lemma callback_kept:
  "thread_read_from_source ops st ra = Inr (st', es) \<Longrightarrow>
     cw_m_postmortem_callback (wr_worker st') = cw_m_postmortem_callback (wr_worker st)"
  "thread_write_to_source ops st wa = Inr (st', es) \<Longrightarrow>
     cw_m_postmortem_callback (wr_worker st') = cw_m_postmortem_callback (wr_worker st)"
  "user_put st buf n = Inr (st', es) \<Longrightarrow>
     cw_m_postmortem_callback (wr_worker st') = cw_m_postmortem_callback (wr_worker st)
     \<and> cw_m_stopped (wr_worker st') = cw_m_stopped (wr_worker st)"
  "user_get st out = Inr (st', es) \<Longrightarrow>
     cw_m_postmortem_callback (wr_worker st') = cw_m_postmortem_callback (wr_worker st)
     \<and> cw_m_stopped (wr_worker st') = cw_m_stopped (wr_worker st)"
  by (auto simp: thread_read_from_source_def thread_write_to_source_def user_put_def user_get_def Let_def
      rbind_eq_Inr dest!: put_reading_frame
      split: read_pc.splits write_pc.splits if_splits option.splits list.splits)

definition postmortem_inv :: "postmortem_callback \<Rightarrow> 's worker_run \<Rightarrow> worker_event list \<Rightarrow> bool" where
  "postmortem_inv cb st tr \<longleftrightarrow> cw_m_postmortem_callback (wr_worker st) = cb
     \<and> postmortems tr = (if cw_m_stopped (wr_worker st) then [cb] else [])"

lemma steps_postmortem_inv:
  assumes "worker_steps ops wok st0 st tr" and "postmortem_inv cb st0 []"
  shows "postmortem_inv cb st tr"
  using assms
proof (induction rule: worker_steps.induct)
  case ws_start
  then show ?case by simp
next
  case (ws_reader st tr ra st' es)
  note facts = no_postmortem(1) [OF ws_reader.hyps(2)] callback_kept(1) [OF ws_reader.hyps(2)] reader_frame(6) [OF ws_reader.hyps(2)]
  with ws_reader show ?case by (simp add: postmortem_inv_def)
next
  case (ws_writer st tr wa st' es)
  note facts = no_postmortem(2) [OF ws_writer.hyps(3)] callback_kept(2) [OF ws_writer.hyps(3)] writer_frame(7) [OF ws_writer.hyps(3)]
  with ws_writer show ?case by (simp add: postmortem_inv_def)
next
  case (ws_guard st tr st' es)
  then show ?case by (auto simp: postmortem_inv_def thread_guard_def split: if_splits)
next
  case (ws_put st tr n buf st' es)
  then show ?case using no_postmortem(3) callback_kept(3) by (fastforce simp: postmortem_inv_def)
next
  case (ws_get st tr out st' es)
  then show ?case using no_postmortem(4) callback_kept(4) by (fastforce simp: postmortem_inv_def)
next
  case (ws_stop st tr)
  then show ?case by (simp add: postmortem_inv_def ConnectionWorker_stop_def)
qed

subsection \<open>Properties\<close>


lemma ended_run:
  assumes "cw_m_queue_for_reading w = None" and "cw_m_queue_for_writing w = None" and "\<not> cw_m_stopped w"
  shows "\<exists>st. worker_steps ops wok (worker_started w s) st [E_Postmortem (cw_m_postmortem_callback w)] \<and> cw_m_stopped (wr_worker st)"
proof -
  let ?i = "worker_started w s"
  let ?a = "?i\<lparr>wr_rpc := R_Exit\<rparr>"
  let ?b = "?a\<lparr>wr_worker := w\<lparr>cw_m_read_thread_alive := False\<rparr>, wr_rpc := R_Done\<rparr>"
  let ?c = "?b\<lparr>wr_wpc := W_Exit\<rparr>"
  let ?d = "?c\<lparr>wr_worker := (wr_worker ?c)\<lparr>cw_m_write_thread_alive := False\<rparr>, wr_wpc := W_Done\<rparr>"
  have "thread_read_from_source ops ?i ra = Inr (?a, [])" "thread_read_from_source ops ?a ra = Inr (?b, [])" for ra
    using assms(1) by (simp_all add: thread_read_from_source_def worker_started_def)
  from ws_reader [OF ws_reader [OF ws_start this(1)] this(2)] have b: "worker_steps ops wok ?i ?b []" by simp
  have "thread_write_to_source ops ?b wa = Inr (?c, [])" "thread_write_to_source ops ?c wa = Inr (?d, [])" for wa
    using assms(2) by (simp_all add: thread_write_to_source_def worker_started_def)
  from ws_writer [OF ws_writer [OF b _ this(1)] _ this(2)] have d: "worker_steps ops wok ?i ?d []"
    by (simp add: worker_started_def)
  have "thread_guard ?d = Some (?d\<lparr>wr_worker := (wr_worker ?d)\<lparr>cw_m_stopped := True\<rparr>\<rparr>,
      [E_Postmortem (cw_m_postmortem_callback w)])"
    using assms(3) by (simp add: thread_guard_def)
  from ws_guard [OF d this] show ?thesis by auto
qed


text \<open>
  C24. Destroying a local worker, in any state its threads and users can reach. When the guard has marked it
  stopped, both threads have ended and nothing uses the socket any more. But a thread that is at its call of
  the socket uses it after its destruction, although the destructor of the base class is about to stop the
  thread and wait for it; and a writing thread that is still in its loop when that destructor runs gets 0
  from the write of the base class for ever, so the wait does not end.
\<close>

theorem LocalSocketWorker_destruction:
  assumes "worker_steps (mortal_source local_source) wok (worker_started w (Alive s)) st tr"
    and "\<not> cw_m_stopped w" and "LocalSocketWorker_dtor st = (st1, es)"
    and "base_destruction False st1 = (waits, st2)"
  shows "(cw_m_stopped (wr_worker st) \<longrightarrow>
      thread_read_from_source (mortal_source local_source) st1 ra = Inl Blocked
      \<and> thread_write_to_source (mortal_source local_source) st1 wa = Inl Blocked)
    \<and> (wr_rpc st = R_Read \<longrightarrow> thread_read_from_source (mortal_source local_source) st1 ra = Inl Bad_Memory)
    \<and> (wr_wpc st = W_Write \<longrightarrow> thread_write_to_source (mortal_source local_source) st1 wa = Inl Bad_Memory)
    \<and> waits = cw_t_guard_joinable (wr_worker st)
    \<and> (wr_wpc st = W_Write \<longrightarrow>
        (\<exists>st3. run_writer (mortal_source local_source) st2 (replicate n wa) = Inr (st3, []) \<and> wr_wpc st3 = W_Write))"
proof -
  have st1: "st1 = st\<lparr>wr_source := Destroyed\<rparr>" using assms(3) by (simp add: LocalSocketWorker_dtor_def)
  have st2: "wr_source st2 = Base_only" "wr_wpc st2 = wr_wpc st" "waits = cw_t_guard_joinable (wr_worker st)"
    using assms(4) by (auto simp: base_destruction_def st1 ConnectionWorker_dtor_def ConnectionWorker_stop_def Let_def
        split: if_splits)
  have "cw_m_stopped (wr_worker st) \<Longrightarrow> wr_rpc st1 = R_Done \<and> wr_wpc st1 = W_Done"
    using stopped_threads_ended [OF assms(1)] assms(2) by (simp add: worker_started_def st1)
  with st1 st2 show ?thesis
    by (auto simp: ended_threads use_after_destruction base_retry)
qed

theorem LocalSocketWorker_destruction_witness:
  "\<exists>st. worker_steps (mortal_source local_source) (\<lambda>s buf a. True) (worker_started demo_worker (Alive (Some demo_local))) st []
     \<and> LocalSocketWorker_dtor st = (st\<lparr>wr_source := Destroyed\<rparr>, [Ev_Close 4, Ev_Unlink ''/tmp/1''])
     \<and> thread_read_from_source (mortal_source local_source) (st\<lparr>wr_source := Destroyed\<rparr>) (Received [1]) = Inl Bad_Memory"
proof -
  let ?ops = "mortal_source local_source"
  let ?init = "worker_started demo_worker (Alive (Some demo_local))"
  let ?mid = "?init\<lparr>wr_rpc := R_Read\<rparr>"
  have "thread_read_from_source ?ops ?init (Received []) = Inr (?mid, [])"
    by (simp add: thread_read_from_source_def worker_started_def)
  from ws_reader [OF ws_start this] have 1: "worker_steps ?ops (\<lambda>s buf a. True) ?init ?mid []" by simp
  have d: "LocalSocketWorker_dtor ?mid = (?mid\<lparr>wr_source := Destroyed\<rparr>, [Ev_Close 4, Ev_Unlink ''/tmp/1''])"
    by (simp add: LocalSocketWorker_dtor_def worker_started_def LocalSocket_dtor_def demo_local_def c_str_def)
  obtain waits st2 where b: "base_destruction False (?mid\<lparr>wr_source := Destroyed\<rparr>) = (waits, st2)" by fastforce
  have "\<not> cw_m_stopped demo_worker" by (simp add: demo_worker_def ConnectionWorker_ctor_def)
  from LocalSocketWorker_destruction [OF 1 this d b, of "Received [1]"] 1 d show ?thesis by auto
qed

text \<open>A TCP worker is destroyed in the same order.\<close>

theorem TCPSocketWorker_destruction:
  assumes "worker_steps (mortal_source tcp_source) wok (worker_started w (Alive s)) st tr"
    and "\<not> cw_m_stopped w" and "TCPSocketWorker_dtor st = (st1, es)"
  shows "(cw_m_stopped (wr_worker st) \<longrightarrow>
      thread_read_from_source (mortal_source tcp_source) st1 ra = Inl Blocked
      \<and> thread_write_to_source (mortal_source tcp_source) st1 wa = Inl Blocked)
    \<and> (wr_rpc st = R_Read \<longrightarrow> thread_read_from_source (mortal_source tcp_source) st1 ra = Inl Bad_Memory)
    \<and> (wr_wpc st = W_Write \<longrightarrow> thread_write_to_source (mortal_source tcp_source) st1 wa = Inl Bad_Memory)"
proof -
  have st1: "st1 = st\<lparr>wr_source := Destroyed\<rparr>" using assms(3) by (simp add: TCPSocketWorker_dtor_def)
  have "cw_m_stopped (wr_worker st) \<Longrightarrow> wr_rpc st1 = R_Done \<and> wr_wpc st1 = W_Done"
    using stopped_threads_ended [OF assms(1)] assms(2) by (simp add: worker_started_def st1)
  with st1 show ?thesis by (auto simp: ended_threads use_after_destruction)
qed

end
