(* ===== verification/Subprocess.thy ===== *)
theory Subprocess
  imports Socket_Workers
begin

text \<open>
  \<open>subprocesses/\<close>: a subprocess owns a local worker and hands every datagram its worker cut out of the
  socket to \<open>datagram_processor\<close>, which is user code: the datagrams given to it are listed in the
  result. The two instances differ in their names only. Console messages and sleeps are left out.
\<close>

definition QUEUE_COUNT_BAGS :: u32 where
  "QUEUE_COUNT_BAGS = 128"

text \<open>The two queues of the constructor; \<open>next\<close> is the allocation counter of synchronisation objects.\<close>

definition q_for_reading_from_source :: "nat \<Rightarrow> queue_obj \<times> nat" where
  "q_for_reading_from_source next =
     (case RQ_BlockWriteDecorator_ctor (Ring (RingQueue_ctor QUEUE_COUNT_BAGS 65535)) next of
        (q, next') \<Rightarrow> RQ_NoBlockReadDecorator_ctor q next')"

definition q_for_writing_to_source :: "nat \<Rightarrow> queue_obj \<times> nat" where
  "q_for_writing_to_source next =
     (case RQ_BlockWriteTimedDecorator_ctor (Ring (RingQueue_ctor QUEUE_COUNT_BAGS 65535)) 1000 next of
        (q, next') \<Rightarrow> RQ_NoBlockReadDecorator_ctor q next')"

record abstract_subprocess =
  as_m_local_worker :: "local_socket option worker_run"
  as_m_subprocess_name :: string

text \<open>
  The constructor: the local socket reads on \<open>path_output\<close> and writes to \<open>path_input\<close>, and the worker is
  started at once. \<open>sock\<close> and \<open>bnd\<close> are the answers of \<open>socket\<close> and \<open>bind\<close>.
\<close>

definition AbstractSubprocess_ctor ::
  "string \<Rightarrow> string \<Rightarrow> string \<Rightarrow> int \<Rightarrow> int \<Rightarrow> (abstract_subprocess \<times> os_event list) result" where
  "AbstractSubprocess_ctor path_input path_output subprocess_name sock bnd =
     rbind (LocalSocket_ctor path_output path_input sock bnd) (\<lambda>(local_socket, es).
       let (rq, n1) = q_for_reading_from_source 0;
           (wq, n2) = q_for_writing_to_source n1;
           ((w, m_local_socket), counter) = LocalSocketWorker_ctor (Some rq) (Some wq) (Some local_socket) 0
       in rbind (ConnectionWorker_run w) (\<lambda>w1.
            Inr (\<lparr>as_m_local_worker = worker_started w1 m_local_socket,
                  as_m_subprocess_name = subprocess_name\<rparr>, es)))"

text \<open>
  The inner loop of \<open>loop\<close>: datagrams are taken and processed until a \<open>get\<close> returns 0. The loop is
  partial here; \<open>drain_all\<close> shows that it ends.
\<close>

partial_function (option) drain ::
  "queue_obj \<Rightarrow> u8 sized_array \<Rightarrow> (bytes list \<times> queue_obj \<times> u8 sized_array) result option" where
  "drain q arr =
     (case deco_get [] q (sa_elems arr) (word_of_nat (SizedArray_size arr)) of
        Inl f \<Rightarrow> Some (Inl f)
      | Inr (got_size, out, q1) \<Rightarrow>
          let arr1 = arr\<lparr>sa_elems := out\<rparr>
          in if got_size > 0
             then (let arr2 = SizedArray_resize arr1 (unat got_size)
                   in Option.bind (drain q1 arr2) (\<lambda>r.
                        Some (rbind r (\<lambda>(ds, q2, arr3). Inr (sa_data arr2 # ds, q2, arr3)))))
             else Some (Inr ([], q1, arr1)))"

definition loop_iteration ::
  "queue_obj \<Rightarrow> u8 sized_array \<Rightarrow> (bytes list \<times> queue_obj \<times> u8 sized_array) result option" where
  "loop_iteration q arr = (if deco_size q \<noteq> 0 then drain q arr else Some (Inr ([], q, arr)))"

text \<open>
  \<open>loop\<close>: each round has the answer of \<open>getppid\<close> and the reading queue as the worker's thread left it.
  The result is what was processed, and whether the process has exited.
\<close>

fun AbstractSubprocess_loop ::
  "u8 sized_array \<Rightarrow> (int \<times> queue_obj) list \<Rightarrow> (bytes list \<times> bool) result option" where
  "AbstractSubprocess_loop arr [] = Some (Inr ([], False))"
| "AbstractSubprocess_loop arr ((ppid, q) # rounds) =
     (if ppid < 2 then Some (Inr ([], True))
      else Option.bind (loop_iteration q arr) (\<lambda>r.
             case r of
               Inl f \<Rightarrow> Some (Inl f)
             | Inr (ds, q', arr') \<Rightarrow>
                 Option.bind (AbstractSubprocess_loop arr' rounds) (\<lambda>r'.
                   Some (rbind r' (\<lambda>(es, ended). Inr (ds @ es, ended))))))"

text \<open>
  The constructor of an instance up to its call of \<open>start\<close>, which does not return. The base constructor
  has started the worker, so its threads may run before the parser is set; \<open>InstanceSubprocess_ctor\<close> is the
  constructor when they do not, and \<open>instance_steps\<close> has every interleaving: the steps of the worker, the
  call of \<open>set_parser\<close> between two of them, and the steps after it.
\<close>

definition set_instance_parser :: "'s worker_run \<Rightarrow> 's worker_run" where
  "set_instance_parser st = st\<lparr>wr_worker :=
     ConnectionWorker_set_parser (Some (Obj_ParserExample ParserExample_ctor)) (wr_worker st)\<rparr>"

definition InstanceSubprocess_ctor ::
  "string \<Rightarrow> string \<Rightarrow> string \<Rightarrow> int \<Rightarrow> int \<Rightarrow> (abstract_subprocess \<times> os_event list) result" where
  "InstanceSubprocess_ctor name path_input path_output sock bnd =
     rbind (AbstractSubprocess_ctor path_input path_output name sock bnd) (\<lambda>(sp, es).
       Inr (sp\<lparr>as_m_local_worker := set_instance_parser (as_m_local_worker sp)\<rparr>, es))"

inductive instance_steps :: "abstract_subprocess \<Rightarrow> local_socket option worker_run \<Rightarrow> worker_event list \<Rightarrow> bool"
  for sp where
  is_before: "worker_steps local_source local_kernel (as_m_local_worker sp) st tr \<Longrightarrow> instance_steps sp st tr"
| is_after: "worker_steps local_source local_kernel (as_m_local_worker sp) st1 tr1 \<Longrightarrow>
    worker_steps local_source local_kernel (set_instance_parser st1) st tr2 \<Longrightarrow>
    instance_steps sp st (tr1 @ tr2)"

definition InstanceSubprocess_1_ctor ::
  "string \<Rightarrow> string \<Rightarrow> int \<Rightarrow> int \<Rightarrow> (abstract_subprocess \<times> os_event list) result" where
  "InstanceSubprocess_1_ctor = InstanceSubprocess_ctor ''subprocess_1''"

definition InstanceSubprocess_2_ctor ::
  "string \<Rightarrow> string \<Rightarrow> int \<Rightarrow> int \<Rightarrow> (abstract_subprocess \<times> os_event list) result" where
  "InstanceSubprocess_2_ctor = InstanceSubprocess_ctor ''subprocess_2''"

text \<open>
  \<open>main\<close>: the arguments are \<open>argv[0] .. argv[argc - 1]\<close>, and \<open>argv[argc]\<close> is a null pointer; reading
  further is a memory fault.
\<close>

datatype main_outcome = Exited nat | Running "abstract_subprocess \<times> os_event list"

definition argv_string :: "string list \<Rightarrow> nat \<Rightarrow> string result" where
  "argv_string argv i =
     (if i < length argv then Inr (argv ! i) else if i = length argv then Inl Null_String else Inl Bad_Memory)"

definition instance_main ::
  "(string \<Rightarrow> string \<Rightarrow> int \<Rightarrow> int \<Rightarrow> (abstract_subprocess \<times> os_event list) result)
    \<Rightarrow> string list \<Rightarrow> int \<Rightarrow> int \<Rightarrow> main_outcome result" where
  "instance_main subprocess_ctor argv sock bnd =
     (if length argv < 2 then Inr (Exited 1)
      else rbind (argv_string argv 2) (\<lambda>path_input. rbind (argv_string argv 1) (\<lambda>path_output.
             rbind (subprocess_ctor path_input path_output sock bnd) (\<lambda>r. Inr (Running r)))))"

definition instance_subprocess_1_main :: "string list \<Rightarrow> int \<Rightarrow> int \<Rightarrow> main_outcome result" where
  "instance_subprocess_1_main = instance_main InstanceSubprocess_1_ctor"

definition instance_subprocess_2_main :: "string list \<Rightarrow> int \<Rightarrow> int \<Rightarrow> main_outcome result" where
  "instance_subprocess_2_main = instance_main InstanceSubprocess_2_ctor"

subsection \<open>Draining a queue\<close>

lemma drain_all:
  assumes "deco_inv q" and "SizedArray_size arr = connection_worker_arr_size"
    and "\<forall>d \<in> set (deco_cont q). d \<noteq> []"
  shows "\<exists>q' arr'. drain q arr = Some (Inr (deco_cont q, q', arr')) \<and> deco_inv q' \<and> deco_cont q' = []
    \<and> SizedArray_size arr' = connection_worker_arr_size"
  using assms
proof (induction "length (deco_cont q)" arbitrary: q arr)
  case 0
  have len: "length (sa_elems arr) = 65535" and n: "word_of_nat (SizedArray_size arr) = (65535 :: u16)"
    using 0 by (simp_all add: op_defs connection_worker_arr_size_def)
  from deco_get_refines [OF 0(2), of 65535 "sa_elems arr"] 0(1) len obtain q' where
    "deco_get [] q (sa_elems arr) 65535 = Inr (0, sa_elems arr, q')" "deco_inv q'" "deco_cont q' = []"
    by auto
  with 0 n show ?case by (subst drain.simps) (auto simp: op_defs)
next
  case (Suc k)
  then obtain d ds where c: "deco_cont q = d # ds" "k = length ds" by (cases "deco_cont q") auto
  have len: "length (sa_elems arr) = 65535" and n: "word_of_nat (SizedArray_size arr) = (65535 :: u16)"
    using Suc.prems(2) by (simp_all add: op_defs connection_worker_arr_size_def)
  have d: "length d < 65536" "d \<noteq> []" using dq.item_law [OF Suc.prems(1)] Suc.prems(3) c by auto
  then have r: "unat (word_of_nat (length d) :: u16) = length d" by (simp add: unat_of_nat)
  have "\<exists>r out q'. deco_get [] q (sa_elems arr) 65535 = Inr (r, out, q') \<and> deco_inv q'
      \<and> (r, out, deco_get_status q', deco_cont q') = fifo_get (d # ds) (sa_elems arr) 65535"
    using deco_get_refines [OF Suc.prems(1), of 65535 "sa_elems arr"] len c by auto
  then obtain q' where q': "deco_get [] q (sa_elems arr) 65535
      = Inr (word_of_nat (length d), d @ drop (length d) (sa_elems arr), q')" "deco_inv q'" "deco_cont q' = ds"
    unfolding fifo_get_whole [OF d(1)] by blast
  let ?arr = "SizedArray_resize (arr\<lparr>sa_elems := d @ drop (length d) (sa_elems arr)\<rparr>) (length d)"
  have a: "SizedArray_size ?arr = connection_worker_arr_size" "sa_data ?arr = d"
    using len d by (auto simp: op_defs sa_data_def connection_worker_arr_size_def)
  have "length (deco_cont q') = k" using q'(3) c(2) by simp
  from Suc.hyps(1) [OF this [symmetric] q'(2) a(1)] Suc.prems(3) q'(3) c(1) obtain q2 arr2 where
    "drain q' ?arr = Some (Inr (ds, q2, arr2))" "deco_inv q2" "deco_cont q2 = []"
    "SizedArray_size arr2 = connection_worker_arr_size" by auto
  moreover have "(word_of_nat (length d) :: u16) > 0"
    using r d(2) by (simp add: word_greater_zero_iff unat_eq_0 [symmetric])
  ultimately show ?case
    using q'(1) n r a(2) c(1) by (subst drain.simps) (simp add: Let_def)
qed

lemma loop_iteration_all:
  assumes "deco_inv q" and "SizedArray_size arr = connection_worker_arr_size"
    and "\<forall>d \<in> set (deco_cont q). d \<noteq> []"
  shows "\<exists>q' arr'. loop_iteration q arr = Some (Inr (deco_cont q, q', arr'))
    \<and> SizedArray_size arr' = connection_worker_arr_size"
proof (cases "deco_size q = 0")
  case True
  have "unat (deco_size q) = length (deco_cont q)" using dq.size_law [OF assms(1)] by (simp add: deco_impl_def)
  with True assms(2) show ?thesis by (simp add: loop_iteration_def)
next
  case False
  then show ?thesis using drain_all [OF assms] by (auto simp: loop_iteration_def)
qed

subsection \<open>A queue nobody can put into\<close>

text \<open>The reading queue of a subprocess: its \<open>put\<close> waits for a capacity that is always 0.\<close>

definition dead_queue :: "queue_obj \<Rightarrow> bool" where
  "dead_queue q \<longleftrightarrow> list_ex put_blocks (classes q) \<and> RingQueue_capacity (core q) = 0
     \<and> distinct (put_locks q) \<and> \<not> list_ex get_blocks (classes q) \<and> distinct (get_locks q) \<and> deco_size q = 0"

lemma dead_put: "dead_queue q \<Longrightarrow> deco_put [] q buf n = Inl Blocked"
  by (simp add: dead_queue_def put_blocked)

lemma dead_get:
  assumes "dead_queue q" and "deco_get [] q out n = Inr (r, out', q')"
  shows "dead_queue q' \<and> r = 0 \<and> deco_get_status q' = STATUS_QUEUEBASE_EMPTY"
proof -
  from assms(1) have d: "\<not> list_ex get_blocks (classes q)" "distinct (get_locks q @ [])" "qb_m_size (core q) = 0"
    by (simp_all add: dead_queue_def deco_accessors_core op_defs)
  from deco_get_delegates [OF d(1,2)] assms(2) d(3)
  have "r = 0" "q' = with_core q ((core q)\<lparr>qb_m_status := STATUS_QUEUEBASE_EMPTY\<rparr>)"
    by (auto simp: RingQueue_get_def op_defs)
  with assms(1) show ?thesis by (simp add: dead_queue_def deco_accessors_core op_defs)
qed

definition silent :: "'s worker_run \<Rightarrow> worker_event list \<Rightarrow> bool" where
  "silent st tr \<longleftrightarrow> queued tr = [] \<and> consumed tr = []
     \<and> (\<exists>q. cw_m_queue_for_reading (wr_worker st) = Some q \<and> dead_queue q)"

lemma silent_frame:
  assumes "silent st tr" and "cw_m_queue_for_reading (wr_worker st') = cw_m_queue_for_reading (wr_worker st)"
    and "queued es = []" and "consumed es = []"
  shows "silent st' (tr @ es)"
  using assms by (simp add: silent_def)

lemma silent_reader:
  assumes "silent st tr" and "thread_read_from_source ops st ra = Inr (st', es)"
  shows "silent st' (tr @ es)"
proof -
  from assms(1) obtain q where q: "cw_m_queue_for_reading (wr_worker st) = Some q" "dead_queue q"
    by (auto simp: silent_def)
  then have "put_reading w buf n = Inl Blocked" if "cw_m_queue_for_reading w = Some q" for w buf n
    using that by (simp add: put_reading_def dead_put)
  with assms(2) q(1) have "cw_m_queue_for_reading (wr_worker st') = Some q \<and> queued es = []"
    by (auto simp: thread_read_from_source_def Let_def rbind_eq_Inr
        split: read_pc.splits if_splits option.splits list.splits)
  with silent_frame [OF assms(1), of st' es] q reader_frame(9) [OF assms(2)] show ?thesis by simp
qed

lemma silent_steps:
  assumes "worker_steps ops wok st0 st tr" and "silent st0 []"
  shows "silent st tr"
  using assms
proof (induction rule: worker_steps.induct)
  case ws_start
  then show ?case by simp
next
  case (ws_reader st tr ra st' es)
  show ?case by (rule silent_reader [OF ws_reader.IH [OF ws_reader.prems] ws_reader.hyps(2)])
next
  case (ws_writer st tr wa st' es)
  show ?case
    by (rule silent_frame [OF ws_writer.IH [OF ws_writer.prems]]) (fact writer_frame [OF ws_writer.hyps(3)])+
next
  case (ws_guard st tr st' es)
  then show ?case using silent_frame [of st tr st' es] guard_frame [of st st' es] by simp
next
  case (ws_put st tr n buf st' es)
  show ?case
    by (rule silent_frame [OF ws_put.IH [OF ws_put.prems]]) (fact user_put_frame [OF ws_put.hyps(3)])+
next
  case (ws_get st tr out st' es)
  then have st: "silent st tr" by blast
  then obtain q where q: "cw_m_queue_for_reading (wr_worker st) = Some q" "dead_queue q"
    by (auto simp: silent_def)
  with ws_get.hyps(3) obtain r out' q' where "deco_get [] q out 65535 = Inr (r, out', q')"
    "st' = st\<lparr>wr_worker := (wr_worker st)\<lparr>cw_m_queue_for_reading := Some q'\<rparr>\<rparr>"
    "es = (if deco_get_status q' = STATUS_QUEUEBASE_OK then [E_Consumed (take (unat r) out')] else [])"
    by (auto simp: user_get_def rbind_eq_Inr)
  with dead_get [OF q(2), of out 65535] st show ?case by (auto simp: silent_def)
next
  case (ws_stop st tr)
  then show ?case
    using silent_frame [of st tr "st\<lparr>wr_worker := ConnectionWorker_stop (wr_worker st)\<rparr>" "[]"]
    by (simp add: ConnectionWorker_stop_def)
qed

lemma reading_queue_dead: "dead_queue (fst (q_for_reading_from_source n))"
  by (simp add: q_for_reading_from_source_def RQ_BlockWriteDecorator_ctor_def
      RQ_NoBlockReadDecorator_ctor_def deco_ctor_def Let_def dead_queue_def deco_accessors_core op_defs)

lemma silent_instance:
  assumes "instance_steps sp st tr" and "silent (as_m_local_worker sp) []"
  shows "silent st tr"
  using assms(1)
proof cases
  case is_before
  then show ?thesis using silent_steps assms(2) by blast
next
  case (is_after st1 tr1 tr2)
  have 1: "silent st1 tr1" by (rule silent_steps [OF is_after(2) assms(2)])
  then have "silent (set_instance_parser st1) []"
    by (simp add: silent_def set_instance_parser_def ConnectionWorker_set_parser_def)
  from silent_steps [OF is_after(3) this] 1 is_after(1) show ?thesis by (simp add: silent_def)
qed

lemma subprocess_worker:
  assumes "AbstractSubprocess_ctor path_input path_output name sock bnd = Inr (sp, es)"
  shows "\<exists>s. LocalSocket_ctor path_output path_input sock bnd = Inr (s, es)
    \<and> wr_source (as_m_local_worker sp) = Some s
    \<and> cw_m_queue_for_reading (wr_worker (as_m_local_worker sp)) = Some (fst (q_for_reading_from_source 0))
    \<and> cw_m_parser (wr_worker (as_m_local_worker sp)) = None"
  using assms
  by (auto simp: AbstractSubprocess_ctor_def LocalSocketWorker_ctor_def ConnectionWorker_ctor_def
      ConnectionWorker_run_def worker_started_def rbind_eq_Inr Let_def split_def)

lemma instance_worker:
  assumes "InstanceSubprocess_ctor name path_input path_output sock bnd = Inr (sp, es)"
  shows "\<exists>s. LocalSocket_ctor path_output path_input sock bnd = Inr (s, es)
    \<and> wr_source (as_m_local_worker sp) = Some s
    \<and> cw_m_queue_for_reading (wr_worker (as_m_local_worker sp)) = Some (fst (q_for_reading_from_source 0))
    \<and> cw_m_parser (wr_worker (as_m_local_worker sp)) = Some (Obj_ParserExample ParserExample_ctor)"
  using assms
  by (auto simp: InstanceSubprocess_ctor_def set_instance_parser_def ConnectionWorker_set_parser_def
      rbind_eq_Inr dest: subprocess_worker)

subsection \<open>Properties\<close>

text \<open>
  C10. A subprocess never sees a datagram. Its reading queue is decorated with \<open>RQ_BlockWriteDecorator\<close>,
  whose \<open>put\<close> waits until the size is below \<open>capacity()\<close>, which is 0. In every state its worker can
  reach, before the instance sets the parser and after, whatever arrives on the socket and however the
  threads interleave, nothing has been put into the queue and the loop has nothing to process.
\<close>

theorem subprocess_sees_no_datagram:
  assumes "AbstractSubprocess_ctor path_input path_output name sock bnd = Inr (sp, es)"
    and "instance_steps sp st tr"
  shows "queued tr = [] \<and> consumed tr = [] \<and>
    (\<exists>q. cw_m_queue_for_reading (wr_worker st) = Some q \<and> loop_iteration q arr = Some (Inr ([], q, arr)))"
proof -
  have "silent (as_m_local_worker sp) []"
    using subprocess_worker [OF assms(1)] reading_queue_dead by (auto simp: silent_def)
  from silent_instance [OF assms(2) this] show ?thesis
    by (auto simp: silent_def dead_queue_def loop_iteration_def)
qed

theorem subprocess_sees_no_datagram_witness:
  "\<exists>sp es. AbstractSubprocess_ctor ''/tmp/2'' ''/tmp/1'' ''subprocess_1'' 4 0 = Inr (sp, es)
     \<and> (\<forall>st tr. worker_steps local_source local_kernel (set_instance_parser (as_m_local_worker sp)) st tr \<longrightarrow> queued tr = [])"
proof -
  have "\<exists>sp es. AbstractSubprocess_ctor ''/tmp/2'' ''/tmp/1'' ''subprocess_1'' 4 0 = Inr (sp, es)"
    by (simp add: AbstractSubprocess_ctor_def LocalSocketWorker_ctor_def demo_local_ctor ConnectionWorker_ctor_def
        ConnectionWorker_run_def Let_def split_def)
  then obtain sp es where sp: "AbstractSubprocess_ctor ''/tmp/2'' ''/tmp/1'' ''subprocess_1'' 4 0 = Inr (sp, es)"
    by blast
  have "queued tr = []"
    if "worker_steps local_source local_kernel (set_instance_parser (as_m_local_worker sp)) st tr" for st tr
    using subprocess_sees_no_datagram [OF sp is_after [OF ws_start that]] by simp
  with sp show ?thesis by blast
qed



text \<open>
  \<open>main\<close> of an instance, on every count of arguments: without arguments it exits with code 1; with
  one argument its check lets it pass and it builds a string from the null pointer behind the
  arguments; with two or more the worker's socket reads on the first path and writes to the second.
\<close>

theorem instance_main_behaviour:
  assumes "prog \<in> {instance_subprocess_1_main, instance_subprocess_2_main}"
  shows "(length argv < 2 \<longrightarrow> prog argv sock bnd = Inr (Exited 1))
   \<and> (length argv = 2 \<longrightarrow> prog argv sock bnd = Inl Null_String)
   \<and> (length argv > 2 \<and> prog argv sock bnd = Inr (Running (sp, es)) \<longrightarrow>
        (\<exists>s. wr_source (as_m_local_worker sp) = Some s
           \<and> ls_m_path_for_reading s = argv ! 1 \<and> ls_m_path_for_writing s = argv ! 2))"
proof -
  from assms obtain name where prog: "prog = instance_main (InstanceSubprocess_ctor name)"
    by (auto simp: instance_subprocess_1_main_def instance_subprocess_2_main_def
        InstanceSubprocess_1_ctor_def InstanceSubprocess_2_ctor_def)
  have "ls_m_path_for_reading s = pin \<and> ls_m_path_for_writing s = pout"
    if "LocalSocket_ctor pin pout sock bnd = Inr (s, es)" for s pin pout
    using that by (auto simp: LocalSocket_ctor_def LocalSocket_init_socket_def Let_def rbind_eq_Inr split: if_splits)
  then have "\<exists>s. wr_source (as_m_local_worker sp) = Some s \<and> ls_m_path_for_reading s = pin
      \<and> ls_m_path_for_writing s = pout"
    if "InstanceSubprocess_ctor name pout pin sock bnd = Inr (sp, es)" for pin pout
    using instance_worker [OF that] by blast
  then show ?thesis
    by (auto simp: prog instance_main_def argv_string_def rbind_eq_Inr)
qed

theorem instance_main_behaviour_witness:
  "instance_subprocess_1_main [''prog'', ''/tmp/1''] 4 0 = Inl Null_String
   \<and> instance_subprocess_2_main [''prog''] 4 0 = Inr (Exited 1)"
  using instance_main_behaviour [of instance_subprocess_1_main "[''prog'', ''/tmp/1'']" 4 0]
    instance_main_behaviour [of instance_subprocess_2_main "[''prog'']" 4 0] by simp

end
