(* ===== verification/Demo_Programs.thy ===== *)
theory Demo_Programs
  imports Ring_Queue Parser_Example Local_Socket
begin

text \<open>
  The \<open>main\<close> functions beside the library: \<open>parsers/main.cpp\<close>, \<open>containers/main.cpp\<close> and
  \<open>connections/local/main.cpp\<close>. What they print is their result. The three other ones
  (\<open>connections/network\<close>, \<open>connections/workers\<close>, \<open>subprocesses/abstract_subprocess\<close>) have empty bodies.
\<close>

subsection \<open>The parser\<close>

text \<open>
  A datagram of 56 bytes behind ten bytes of garbage. The result is the header printed before
  parsing, the count returned by \<open>put\<close>, and the headers of the datagrams found.
\<close>

definition parsers_garbage :: bytes where
  "parsers_garbage = map word_of_nat [0..<10]"

definition parsers_head :: data_head where
  "parsers_head = data_head_ctor\<lparr>dh_main_word := 0xffffffff, dh_msg_ver := 4, dh_size := 56, dh_msg_type := 33\<rparr>"

definition parsers_main :: "(data_head \<times> u32 \<times> data_head list) result" where
  "parsers_main =
     rbind (memcpy (vector_resize [] (unat (dh_size parsers_head))) (bytes_of_data_head parsers_head) sizeof_data_head)
       (\<lambda>data.
         let pt_head = data_head_of_bytes data; input = parsers_garbage @ data
         in rbind (ParserExample_put ParserExample_ctor input (word_of_nat (length input)) [])
              (\<lambda>(found_dg_count, parser, for_parsed).
                Inr (pt_head, found_dg_count, map data_head_of_bytes for_parsed)))"

theorem parsers_main_finds_its_datagram:
  "parsers_main = Inr (parsers_head, 1, [parsers_head])"
proof -
  let ?data = "bytes_of_data_head parsers_head @ replicate 44 0"
  have len: "length ?data = 56" by simp
  have head: "data_head_of_bytes ?data = parsers_head" by (rule data_head_roundtrip)
  have "MAIN_WORD = 0xffffffff" by (simp add: MAIN_WORD_def)
  then have ok: "head_ok ?data" "head_size ?data = 56"
    unfolding head_ok_def head_size_def head by (simp_all add: parsers_head_def)
  have "255 \<notin> set parsers_garbage" by (simp add: parsers_garbage_def upt_rec)
  then have "deframe (parsers_garbage @ ?data) = deframe ?data"
    using deframe_garbage [of ?data parsers_garbage] no_header_without_ff len by auto
  also have "\<dots> = Inr ([?data], [])"
    using deframe_cut [OF ok(1)] ok(2) len by simp
  finally have "ParserExample_put ParserExample_ctor (parsers_garbage @ ?data) 66 [] = Inr (1, parser_at [], [?data])"
    using ParserExample_put_at [of "[]" 66 "parsers_garbage @ ?data" "[]"]
    by (simp add: ParserExample_ctor_at parsers_garbage_def)
  moreover have "memcpy (vector_resize [] (unat (dh_size parsers_head))) (bytes_of_data_head parsers_head) sizeof_data_head
      = Inr ?data"
    by (simp add: memcpy_def vector_resize_def parsers_head_def sizeof_data_head_def)
  ultimately show ?thesis
    using head by (simp add: parsers_main_def Let_def parsers_garbage_def)
qed

subsection \<open>The ring buffer\<close>

text \<open>The result is the size that \<open>get\<close> returned and the ten numbers printed.\<close>

definition containers_main :: "(u16 \<times> bytes) result" where
  "containers_main =
     rbind (RingQueue_put (RingQueue_ctor 10 60) ([1, 2, 3, 4] @ replicate 6 0) 10) (\<lambda>(put_size, a).
     rbind (RingQueue_get a (replicate 10 0) 10) (\<lambda>(got_size, buf2, a'). Inr (got_size, buf2)))"

theorem containers_main_prints_its_item:
  "containers_main = Inr (10, [1, 2, 3, 4, 0, 0, 0, 0, 0, 0])"
proof -
  let ?buf = "[1, 2, 3, 4] @ replicate 6 (0 :: u8)"
  obtain q1 q2 where "RingQueue_put (RingQueue_ctor 10 60) ?buf 10 = Inr (10, q1)"
    "RingQueue_get q1 (replicate 10 0) 10 = Inr (10, take 10 ?buf @ drop 10 (replicate 10 0), q2)"
    using rq.put_get_roundtrip [OF RingQueue_ctor_fresh(1,2), of 10 60 10 ?buf 10 "replicate 10 0"]
    by (auto simp: RingQueue_ctor_fresh)
  then show ?thesis by (simp add: containers_main_def eval_nat_numeral)
qed

subsection \<open>The local socket\<close>

text \<open>A local socket is built and destroyed. \<open>sock\<close> and \<open>bnd\<close> are the answers of \<open>socket\<close> and \<open>bind\<close>.\<close>

definition local_main :: "int \<Rightarrow> int \<Rightarrow> os_event list result" where
  "local_main sock bnd =
     rbind (LocalSocket_ctor ''/tmp/1'' ''/tmp/2'' sock bnd) (\<lambda>(a, es). Inr (es @ LocalSocket_dtor a))"

theorem local_main_cleans_up:
  "0 < sock \<Longrightarrow> 0 \<le> bnd \<Longrightarrow>
    local_main sock bnd = Inr [Ev_Unlink ''/tmp/1'', Ev_Close sock, Ev_Unlink ''/tmp/1'']"
  by (simp add: local_main_def LocalSocket_ctor_def LocalSocket_init_socket_def Let_def strcpy_sun_path_def
      c_str_def LocalSocket_dtor_def)

end
