(* ===== verification/Spec2Isabelle.thy ===== *)
theory Spec2Isabelle
  imports Blocking_Progress Connection_Setup Socket_Threads Statistics_Threads Worker_Lifetime Subprocess
    Demo_Programs
begin

text \<open>
  A verification development for the shovel server library: byte queues, a datagram parser, sockets,
  the workers that move data between them, and the subprocesses built on the workers. All paths below
  are relative to \<open>src/src/\<close>.

  The program and its parts.

  A \<open>ConnectionWorker\<close> owns a source (a local or a TCP socket), a parser and two queues. Its reading
  thread reads bytes from the source, has the parser cut them into datagrams and puts these into the
  reading queue; its writing thread takes items from the writing queue and writes them to the source. The
  queues are \<open>RingQueue\<close>s inside chains of decorators that add blocking. \<open>TCPServer\<close> and \<open>TCPClient\<close> make
  the TCP sockets that workers are given; an \<open>AbstractSubprocess\<close> builds the queues, the local socket and
  the worker, and loops over the reading queue.

  Theories, in the order of their imports, and the code they model:

  \<^item> \<open>Shovel_Prelude\<close>: machine integers, faults, sequencing of operations that can fault, \<open>memcpy\<close>,
    \<open>vector\<close> accesses, little-endian layout.
  \<^item> \<open>Sized_Array\<close>: \<open>containers/SizedArray.h\<close>.
  \<^item> \<open>Queue_Base\<close>: \<open>containers/QueueBase\<close>, the fields and accessors of the base class.
  \<^item> \<open>Fifo_Spec\<close>: the abstract bounded FIFO, runs of clients, and the interface \<open>bounded_fifo\<close>.
  \<^item> \<open>Ring_Queue\<close>: \<open>containers/RingQueue\<close>, the ring and its cells; interpretation \<open>rq\<close> of \<open>bounded_fifo\<close>.
  \<^item> \<open>Queue_Decorators\<close>: \<open>containers/RingQueueBlockDecorators\<close>: construction, sharing of mutexes and
    condition variables, dispatch, and the calls of a thread that runs alone; interpretation \<open>dq\<close> of
    \<open>bounded_fifo\<close>.
  \<^item> \<open>Blocking_Machine\<close>, \<open>Blocking_Waits\<close>, \<open>Blocking_Progress\<close>: the same decorators under any number of
    threads: a small-step machine with mutex owners, wait sets, notifications, timeouts and spurious
    wake-ups, its lock typing, linearisation, what waiting guarantees, and progress.
  \<^item> \<open>Stream_Parser\<close>: \<open>parsers/ParserBase\<close> and the interface \<open>stream_parser\<close>.
  \<^item> \<open>Parser_Example\<close>: \<open>parsers/ParserExample\<close>: the parser's state machine, the stream specification
    \<open>deframe\<close> it computes, and the sender's framing; interpretation \<open>px\<close> of \<open>stream_parser\<close>.
  \<^item> \<open>Os_Model\<close>: answers of system calls and events for the kernel.
  \<^item> \<open>Tcp_Socket\<close>, \<open>Local_Socket\<close>, \<open>Tcp_Server\<close>, \<open>Tcp_Client\<close>: \<open>connections/network/\<close> and
    \<open>connections/local/\<close>.
  \<^item> \<open>Connection_Worker\<close>: \<open>connections/workers/ConnectionWorker\<close>: the state, the two working threads and
    the guard as machines with a program counter, the relation \<open>worker_steps\<close> that interleaves them with
    the users of the queues and with \<open>stop\<close>, and the interface \<open>worker_source\<close>.
  \<^item> \<open>Socket_Threads\<close>: \<open>TCPSocket::read\<close> and \<open>write\<close> again, as machines whose steps are the single accesses
    to the members and the single system calls, under the two threads of a worker, which take no lock.
  \<^item> \<open>Statistics_Threads\<close>: the statistics of a worker, as single loads and stores, under its threads and a user
    who queries them.
  \<^item> \<open>Source_Runs\<close>: runs of a worker on any source: invariants of the source, a round of the writing loop.
  \<^item> \<open>Socket_Workers\<close>: \<open>LocalSocketWorker\<close> and \<open>TCPSocketWorker\<close>; interpretations \<open>lw\<close> and \<open>tw\<close> of
    \<open>worker_source\<close>.
  \<^item> \<open>Network_Transfer\<close>: two TCP workers on one connection: what the writing thread puts on the wire, and
    the way of a datagram from the users of one worker to those of the other.
  \<^item> \<open>Unparsed_Stream\<close>: a worker without a parser, and with a parser that is set late.
  \<^item> \<open>Local_Transfer\<close>: two local workers on a pair of datagram sockets, and workers of one process side by
    side.
  \<^item> \<open>Connection_Setup\<close>: the parts together: \<open>TCPClient::connect\<close>, the accept loop of \<open>TCPServer\<close>, the
    sockets they hand over, and TCP workers on them.
  \<^item> \<open>Worker_Lifetime\<close>: the postmortem callback, and the destructors of the two workers in the order C++
    runs them.
  \<^item> \<open>Subprocess\<close>: \<open>subprocesses/\<close>: the queues, the constructor and the loop of \<open>AbstractSubprocess\<close>,
    both instances, whose parser is set while the worker already runs (\<open>instance_steps\<close>), and their \<open>main\<close>.
  \<^item> \<open>Demo_Programs\<close>: the \<open>main\<close> functions beside the library.

  Conventions. A class is a record with one field per member, prefixed by the class (\<open>qb_\<close>, \<open>rq_\<close>, \<open>pe_\<close>,
  \<open>ts_\<close>, \<open>ls_\<close>, \<open>sv_\<close>, \<open>cl_\<close>, \<open>cw_\<close>); a method \<open>C::m\<close> is the definition \<open>C_m\<close>, which takes the object and
  returns the value, the new object and the output buffers. Integers keep their width. A buffer argument
  is the list of bytes the pointer may be used for, so that a copy past it is the fault \<open>Bad_Memory\<close>. A
  system call is not modelled: its answer is an argument of the operation that makes it, and the request
  is an event of the result; the theorems hold for all answers, or for those the stated hypothesis
  allows. Code behind a callback is the user's: what is handed to it is part of the result; the default
  callbacks of the library are modelled.

  What the lemmas show.

  \<^item> Queues: every run of a client on the ring, and on a ring inside non-blocking and timed decorators,
    is call by call the run of a bounded FIFO, for every capacity and item size; nothing is lost or
    reordered.
  \<^item> Blocking: code is lock typed in every reachable state; one mutex on both sides excludes races and a
    blocking \<open>get\<close> never meets an empty ring; calls linearise; a sleeping single consumer means an empty
    ring; an undisturbed call returns. And where the code fails: the chains of \<open>AbstractSubprocess\<close> race,
    a blocking \<open>put\<close> never gets past its wait because \<open>capacity()\<close> is 0, two kinds of notification can be
    lost, nested locking decorators deadlock.
  \<^item> Parser: the machine terminates and computes \<open>deframe\<close>; the cutting of the stream is irrelevant;
    framed payloads come back exactly; garbage is skipped; sizes 8 to 11 in a header fault.
  \<^item> Sockets: results, status and bytes on the wire on every branch; how often each descriptor is closed.
    Two threads on one TCP socket: every call is atomic until an answer ends the connection; then the
    descriptor can be closed twice, never more often, and none but it.
  \<^item> Workers: every datagram of the stream reaches the users once and in order, and every item put is
    written once and in order, in all interleavings; both threads end after a stop request, and when not;
    the end is announced once. The wire of a TCP worker is the concatenation of the items written, and at
    most a prefix of one more when the connection broke. From one end of a connection to the other, framed
    payloads arrive in order, once each; over local sockets too, where items keep their boundaries; and both
    ways at once between a client and a server that serves other connections.
    Without a parser, chunks are dropped when the queue is full. A
    worker that has not stopped is destroyed in the wrong order. The totals of its statistics are exact under
    threads, the chunks are not.
  \<^item> Subprocesses: a subprocess never sees a datagram; its loop processes what a queue holds, in order.

  Termination and bounds. The parser's loop and \<open>deframe\<close> are proved to end by measures on the bytes
  left; the send loop ends because the kernel takes at least one byte per successful call; the inner loop
  of a subprocess is a partial function proved to return on every queue. Loops that wait for the world
  (accept threads, the retry loop of the writing thread, the waits of blocking decorators) are steps or
  take a list of answers, and no fuel is used anywhere.

  Assumptions that the theorems make visible. The worker's machines take a call on a queue as one step.
  For a chain that locks one mutex on both sides \<open>Blocking_Machine\<close> justifies it; for the chains of
  \<open>AbstractSubprocess\<close>, whose \<open>get\<close> locks nothing, it is an idealisation, and the theorem about their
  race says so. A call of \<open>read\<close> or \<open>write\<close> on the source is one step too, and so is \<open>set_parser\<close>.
  For a TCP socket \<open>calm_calls_are_atomic\<close> justifies it up to the first answer that ends the connection;
  \<open>racing_threads_close_twice\<close> shows what two threads can do after it.
  \<open>tcp_kernel\<close> and \<open>local_kernel\<close> state which answers of \<open>send\<close> a theorem about writing covers;
  \<open>steady_kernel\<close> excludes in addition a retry in the middle of a write, after which the program sends the
  same bytes twice (\<open>TCPSocket_retry_duplicates\<close>). The network between two workers is the hypothesis that
  what one has read, followed by what is in flight, is what the other has put on the wire.

  Not modelled. Console messages and sleeps, which only take time; the wall-clock length of timeouts (a
  timed wait may end at any moment); the receive and send timeouts set on a local socket; the three empty
  \<open>main\<close> functions. Data races as such: reading \<open>m_parser\<close> while \<open>set_parser\<close> writes it, and a virtual call
  while a destructor changes the dynamic type, are undefined in C++ and appear here as one of the two orders;
  loads and stores of shared members take effect one at a time.
\<close>

end
